theory Spec2Isabelle
  imports Complex_Main
begin

section \<open>The catalog validator of scripts/validate-catalog.ts\<close>

text \<open>
  The development embeds \<^verbatim>\<open>validateCatalog\<close> of \<^verbatim>\<open>scripts/validate-catalog.ts\<close>
  (the revision with warnings and the flags check). The function reads two files, one
  environment variable and, when the toggle is on, the existence of image files; all of it
  is passed in explicitly. A run either returns a \<^verbatim>\<open>ValidationResult\<close> or
  is left by an uncaught JavaScript exception; the model returns a sum, with the
  exception on the left.
\<close>

subsection \<open>JSON values as JavaScript sees them\<close>

text \<open>
  A number produced by \<^verbatim>\<open>JSON.parse\<close> is a finite double or an infinity
  (a literal such as \<^verbatim>\<open>1e999\<close> overflows), never NaN. The validator only tests a
  number for truthiness and compares it with 0 and 100, so a finite double is kept as the
  rational it denotes (\<^verbatim>\<open>-0\<close> is \<open>0\<close>, which no operation used here
  distinguishes).
\<close>

datatype jsnumber = Finite rat | PosInfinity | NegInfinity

text \<open>
  A parsed object is the list of its own properties in the order in which
  \<^verbatim>\<open>Object.keys\<close> enumerates them; its keys are distinct. A string is a list
  of characters, one per code unit; the model has the code units below 256.
\<close>

datatype json =
    JNull
  | JBool bool
  | JNum jsnumber
  | JStr string
  | JArr "json list"
  | JObj "(string \<times> json) list"

text \<open>The only exception the validator can be left by is a \<^verbatim>\<open>TypeError\<close>.\<close>

datatype exception = TypeError

definition bindE :: "exception + 'a \<Rightarrow> ('a \<Rightarrow> exception + 'b) \<Rightarrow> exception + 'b" where
  "bindE m f = (case m of Inl e \<Rightarrow> Inl e | Inr v \<Rightarrow> f v)"

text \<open>The result of \<^verbatim>\<open>typeof\<close>; a property that is absent reads as \<^verbatim>\<open>undefined\<close>, here \<open>None\<close>.\<close>

datatype jstype = TUndefined | TObject | TBoolean | TNumber | TString

fun typeof :: "json option \<Rightarrow> jstype" where
  "typeof None = TUndefined"
| "typeof (Some JNull) = TObject"
| "typeof (Some (JBool b)) = TBoolean"
| "typeof (Some (JNum n)) = TNumber"
| "typeof (Some (JStr s)) = TString"
| "typeof (Some (JArr xs)) = TObject"
| "typeof (Some (JObj kvs)) = TObject"

text \<open>JavaScript truthiness: what \<^verbatim>\<open>!v\<close> and \<^verbatim>\<open>if (v)\<close> test.\<close>

fun truthy :: "json option \<Rightarrow> bool" where
  "truthy None = False"
| "truthy (Some JNull) = False"
| "truthy (Some (JBool b)) = b"
| "truthy (Some (JNum n)) = (n \<noteq> Finite 0)"
| "truthy (Some (JStr s)) = (s \<noteq> [])"
| "truthy (Some (JArr xs)) = True"
| "truthy (Some (JObj kvs)) = True"

fun isArray :: "json option \<Rightarrow> bool" where
  "isArray (Some (JArr xs)) = True"
| "isArray _ = False"

text \<open>Decimal rendering of an array index, as a template literal prints it.\<close>

definition digitChar :: "nat \<Rightarrow> char" where
  "digitChar d = ''0123456789'' ! d"

fun showNat :: "nat \<Rightarrow> string" where
  "showNat n = (if n < 10 then [digitChar n] else showNat (n div 10) @ [digitChar (n mod 10)])"

declare showNat.simps [simp del]

text \<open>
  \<^verbatim>\<open>Object.entries\<close> of a value that is not null: the own enumerable properties.
  An array has its indices as keys, a string primitive its code units, a number or a
  boolean nothing. \<^verbatim>\<open>Object.keys\<close> is the list of first components.
\<close>

fun ownEntries :: "json \<Rightarrow> (string \<times> json) list" where
  "ownEntries (JObj kvs) = kvs"
| "ownEntries (JArr xs) = zip (map showNat [0..<length xs]) xs"
| "ownEntries (JStr s) = zip (map showNat [0..<length s]) (map (\<lambda>c. JStr [c]) s)"
| "ownEntries _ = []"

definition objectKeys :: "json \<Rightarrow> string list" where
  "objectKeys v = map fst (ownEntries v)"

text \<open>
  The property read \<^verbatim>\<open>v.k\<close> or \<^verbatim>\<open>v[k]\<close> on a value that is not null,
  for the keys the validator reads: the field names of an entry, the variant keys and the
  two flag names. None of them is inherited from a prototype, so the read finds an own
  property or \<^verbatim>\<open>undefined\<close>. The operator \<^verbatim>\<open>k in v\<close> on an object holds
  when the read finds a property.
\<close>

definition getProp :: "json \<Rightarrow> string \<Rightarrow> json option" where
  "getProp v k = map_of (ownEntries v) k"

subsection \<open>Strings\<close>

text \<open>The white space \<^verbatim>\<open>String.prototype.trim\<close> removes, among the code units below 256.\<close>

definition isWhiteSpace :: "char \<Rightarrow> bool" where
  "isWhiteSpace c = (c \<in> set [CHR 0x09, CHR 0x0A, CHR 0x0B, CHR 0x0C, CHR 0x0D, CHR 0x20, CHR 0xA0])"

definition trim :: "string \<Rightarrow> string" where
  "trim s = rev (dropWhile isWhiteSpace (rev (dropWhile isWhiteSpace s)))"

definition startsWith :: "string \<Rightarrow> string \<Rightarrow> bool" where
  "startsWith s pre = (take (length pre) s = pre)"

text \<open>The regular expression \<^verbatim>\<open>/^[a-z0-9_]+$/\<close>.\<close>

definition snakeChar :: "char \<Rightarrow> bool" where
  "snakeChar c = (c \<in> set ''abcdefghijklmnopqrstuvwxyz0123456789_'')"

definition isSnakeCase :: "string \<Rightarrow> bool" where
  "isSnakeCase s = (s \<noteq> [] \<and> list_all snakeChar s)"

text \<open>The regular expression \<^verbatim>\<open>/\.(png)$/i\<close>: the string ends in \<^verbatim>\<open>.png\<close>, in any letter case.\<close>

definition endsWithPng :: "string \<Rightarrow> bool" where
  "endsWithPng s =
     (case rev s of
        g # n # p # d # rest \<Rightarrow>
          d = CHR ''.'' \<and> p \<in> set ''pP'' \<and> n \<in> set ''nN'' \<and> g \<in> set ''gG''
      | _ \<Rightarrow> False)"

text \<open>\<^verbatim>\<open>String.prototype.slice\<close> for indices \<open>0 \<le> a\<close> and \<open>0 \<le> b\<close>.\<close>

definition slice :: "string \<Rightarrow> int \<Rightarrow> int \<Rightarrow> string" where
  "slice s a b = take (nat b - nat a) (drop (nat a) s)"

text \<open>The double quote, which several messages contain.\<close>

definition quote :: "string" where
  "quote = [CHR 0x22]"

subsection \<open>What String(v) and a template literal make of a value\<close>

text \<open>
  A JSON value is converted as JavaScript's \<^verbatim>\<open>ToString\<close> does. A number
  is printed by the runtime's \<^verbatim>\<open>Number::toString\<close>, taken as the parameter
  \<open>nts\<close>. An array joins the conversions of its elements with commas, a null element
  giving the empty string. An object prints as \<^verbatim>\<open>[object Object]\<close>; when it
  has an own property \<^verbatim>\<open>toString\<close> (a JSON value, so not callable) the
  conversion finds no primitive and throws a \<^verbatim>\<open>TypeError\<close>.
\<close>

fun toStringJS :: "(jsnumber \<Rightarrow> string) \<Rightarrow> json \<Rightarrow> exception + string"
  and joinJS :: "(jsnumber \<Rightarrow> string) \<Rightarrow> json list \<Rightarrow> exception + string" where
  "toStringJS nts JNull = Inr ''null''"
| "toStringJS nts (JBool b) = Inr (if b then ''true'' else ''false'')"
| "toStringJS nts (JNum n) = Inr (nts n)"
| "toStringJS nts (JStr s) = Inr s"
| "toStringJS nts (JArr xs) = joinJS nts xs"
| "toStringJS nts (JObj kvs) =
     (if ''toString'' \<in> set (map fst kvs) then Inl TypeError else Inr ''[object Object]'')"
| "joinJS nts [] = Inr []"
| "joinJS nts (x # xs) =
     bindE (if x = JNull then Inr [] else toStringJS nts x) (\<lambda>s.
       if xs = [] then Inr s
       else bindE (joinJS nts xs) (\<lambda>t. Inr (s @ '','' @ t)))"

subsection \<open>Node's path.extname and path.basename\<close>

text \<open>
  The two functions belong to Node's \<^verbatim>\<open>path\<close> module, not to the repository.
  They are written after the POSIX implementation in Node's \<^verbatim>\<open>lib/path.js\<close>:
  a scan of the path from its last character to its first, with the loop variables of
  that code as a record. Both throw a \<^verbatim>\<open>TypeError\<close> when the path is not a
  string.
\<close>

record extnameState =
  startDot :: int
  startPart :: int
  extEnd :: int
  extMatchedSlash :: bool
  preDotState :: int

fun extnameLoop :: "string \<Rightarrow> nat \<Rightarrow> extnameState \<Rightarrow> extnameState" where
  "extnameLoop path 0 st = st"
| "extnameLoop path (Suc i) st =
     (if path ! i = CHR ''/'' then
        (if \<not> extMatchedSlash st then st\<lparr>startPart := int i + 1\<rparr>
         else extnameLoop path i st)
      else
        (let st1 = (if extEnd st = -1 then st\<lparr>extEnd := int i + 1, extMatchedSlash := False\<rparr>
                    else st);
             st2 = (if path ! i = CHR ''.'' then
                      (if startDot st1 = -1 then st1\<lparr>startDot := int i\<rparr>
                       else if preDotState st1 \<noteq> 1 then st1\<lparr>preDotState := 1\<rparr>
                       else st1)
                    else if startDot st1 \<noteq> -1 then st1\<lparr>preDotState := -1\<rparr>
                    else st1)
         in extnameLoop path i st2))"

definition extname :: "string \<Rightarrow> string" where
  "extname path =
     (let st = extnameLoop path (length path)
                 \<lparr>startDot = -1, startPart = 0, extEnd = -1, extMatchedSlash = True,
                  preDotState = 0\<rparr>
      in if startDot st = -1 \<or> extEnd st = -1 \<or> preDotState st = 0 \<or>
            (preDotState st = 1 \<and> startDot st = extEnd st - 1 \<and>
             startDot st = startPart st + 1)
         then []
         else slice path (startDot st) (extEnd st))"

record basenameState =
  baseStart :: int
  baseEnd :: int
  baseMatchedSlash :: bool
  extIdx :: int
  firstNonSlashEnd :: int

fun basenameSuffixLoop :: "string \<Rightarrow> string \<Rightarrow> nat \<Rightarrow> basenameState \<Rightarrow> basenameState" where
  "basenameSuffixLoop path suffix 0 st = st"
| "basenameSuffixLoop path suffix (Suc i) st =
     (if path ! i = CHR ''/'' then
        (if \<not> baseMatchedSlash st then st\<lparr>baseStart := int i + 1\<rparr>
         else basenameSuffixLoop path suffix i st)
      else
        (let st1 = (if firstNonSlashEnd st = -1
                    then st\<lparr>baseMatchedSlash := False, firstNonSlashEnd := int i + 1\<rparr>
                    else st);
             st2 = (if 0 \<le> extIdx st1 then
                      (if path ! i = suffix ! nat (extIdx st1) then
                         (if extIdx st1 - 1 = -1
                          then st1\<lparr>extIdx := extIdx st1 - 1, baseEnd := int i\<rparr>
                          else st1\<lparr>extIdx := extIdx st1 - 1\<rparr>)
                       else st1\<lparr>extIdx := -1, baseEnd := firstNonSlashEnd st1\<rparr>)
                    else st1)
         in basenameSuffixLoop path suffix i st2))"

fun basenamePlainLoop :: "string \<Rightarrow> nat \<Rightarrow> basenameState \<Rightarrow> basenameState" where
  "basenamePlainLoop path 0 st = st"
| "basenamePlainLoop path (Suc i) st =
     (if path ! i = CHR ''/'' then
        (if \<not> baseMatchedSlash st then st\<lparr>baseStart := int i + 1\<rparr>
         else basenamePlainLoop path i st)
      else if baseEnd st = -1
        then basenamePlainLoop path i (st\<lparr>baseMatchedSlash := False, baseEnd := int i + 1\<rparr>)
      else basenamePlainLoop path i st)"

definition basename :: "string \<Rightarrow> string \<Rightarrow> string" where
  "basename path suffix =
     (let init = \<lparr>baseStart = 0, baseEnd = -1, baseMatchedSlash = True,
                  extIdx = int (length suffix) - 1, firstNonSlashEnd = -1\<rparr>
      in if 0 < length suffix \<and> length suffix \<le> length path then
           (if suffix = path then []
            else
              (let st = basenameSuffixLoop path suffix (length path) init;
                   e = (if baseStart st = baseEnd st then firstNonSlashEnd st
                        else if baseEnd st = -1 then int (length path)
                        else baseEnd st)
               in slice path (baseStart st) e))
         else
           (let st = basenamePlainLoop path (length path) init
            in if baseEnd st = -1 then [] else slice path (baseStart st) (baseEnd st)))"

text \<open>The calls as the validator makes them: the argument is whatever the property read gave.\<close>

definition pathExtname :: "json option \<Rightarrow> exception + string" where
  "pathExtname p = (case p of Some (JStr s) \<Rightarrow> Inr (extname s) | _ \<Rightarrow> Inl TypeError)"

definition pathBasename :: "json option \<Rightarrow> string \<Rightarrow> exception + string" where
  "pathBasename p suffix =
     (case p of Some (JStr s) \<Rightarrow> Inr (basename s suffix) | _ \<Rightarrow> Inl TypeError)"

subsection \<open>The result and the environment of a run\<close>

record ValidationResult =
  success :: bool
  errors :: "string list"
  warnings :: "string list"

text \<open>
  \<^verbatim>\<open>result.errors.push(m); result.success = false\<close> and
  \<^verbatim>\<open>result.warnings?.push(w)\<close> (the warning list is always there: the result
  starts with an empty one).
\<close>

definition pushError :: "string \<Rightarrow> ValidationResult \<Rightarrow> ValidationResult" where
  "pushError m result = result\<lparr>errors := errors result @ [m], success := False\<rparr>"

definition pushWarning :: "string \<Rightarrow> ValidationResult \<Rightarrow> ValidationResult" where
  "pushWarning w result = result\<lparr>warnings := warnings result @ [w]\<rparr>"

definition initialResult :: "ValidationResult" where
  "initialResult = \<lparr>success = True, errors = [], warnings = []\<rparr>"

text \<open>
  What a run finds of a JSON file: the file is absent, or reading and parsing it throws an
  \<^verbatim>\<open>Error\<close> with a message, or \<^verbatim>\<open>JSON.parse\<close> returns a value.
\<close>

datatype jsonFile = Missing | Unparsable string | Parsed json

text \<open>
  The environment: \<^verbatim>\<open>drinks.json\<close>, \<^verbatim>\<open>flags.json\<close>, the variable
  \<^verbatim>\<open>process.env.VALIDATE_IMAGE_FILES\<close> (\<open>None\<close> when unset),
  \<^verbatim>\<open>fs.existsSync\<close> of a path joined to the catalog root, and the runtime's
  printing of numbers.
\<close>

record environment =
  drinksJson :: jsonFile
  flagsJson :: jsonFile
  validateImageFiles :: "string option"
  existsSync :: "string \<Rightarrow> bool"
  numberToString :: "jsnumber \<Rightarrow> string"

subsection \<open>The messages\<close>

definition drinkPrefix :: "nat \<Rightarrow> string" where
  "drinkPrefix index = ''Drink at index '' @ showNat index"

text \<open>The interpolation \<^verbatim>\<open>${drink.id || 'unknown id'}\<close>.\<close>

definition idOrUnknown :: "(jsnumber \<Rightarrow> string) \<Rightarrow> json \<Rightarrow> exception + string" where
  "idOrUnknown nts drink =
     (case getProp drink ''id'' of
        None \<Rightarrow> Inr ''unknown id''
      | Some v \<Rightarrow> if truthy (Some v) then toStringJS nts v else Inr ''unknown id'')"

text \<open>The template \<^verbatim>\<open>`${drinkPrefix} (${drink.id || 'unknown id'}): text`\<close>.\<close>

definition labelled :: "nat \<Rightarrow> string \<Rightarrow> string \<Rightarrow> string" where
  "labelled index l text = drinkPrefix index @ '' ('' @ l @ ''): '' @ text"

definition errorFor ::
  "(jsnumber \<Rightarrow> string) \<Rightarrow> nat \<Rightarrow> json \<Rightarrow> string \<Rightarrow> ValidationResult \<Rightarrow> exception + ValidationResult" where
  "errorFor nts index drink text result =
     bindE (idOrUnknown nts drink) (\<lambda>l. Inr (pushError (labelled index l text) result))"

definition warningFor ::
  "(jsnumber \<Rightarrow> string) \<Rightarrow> nat \<Rightarrow> json \<Rightarrow> string \<Rightarrow> ValidationResult \<Rightarrow> exception + ValidationResult" where
  "warningFor nts index drink text result =
     bindE (idOrUnknown nts drink) (\<lambda>l. Inr (pushWarning (labelled index l text) result))"

text \<open>
  The recurring statements \<^verbatim>\<open>if (c) { result.errors.push(...); result.success = false; }\<close>
  and \<^verbatim>\<open>if (c) { result.warnings?.push(...); }\<close>. The message is only built, and
  its label only converted, when the condition holds.
\<close>

definition errorWhen ::
  "bool \<Rightarrow> (jsnumber \<Rightarrow> string) \<Rightarrow> nat \<Rightarrow> json \<Rightarrow> string \<Rightarrow> ValidationResult \<Rightarrow> exception + ValidationResult" where
  "errorWhen c nts index drink text result =
     (if c then errorFor nts index drink text result else Inr result)"

definition warningWhen ::
  "bool \<Rightarrow> (jsnumber \<Rightarrow> string) \<Rightarrow> nat \<Rightarrow> json \<Rightarrow> string \<Rightarrow> ValidationResult \<Rightarrow> exception + ValidationResult" where
  "warningWhen c nts index drink text result =
     (if c then warningFor nts index drink text result else Inr result)"

subsection \<open>The rules of one entry\<close>

text \<open>
  The test \<^verbatim>\<open>!v || typeof v !== 'string' || v.trim() === ''\<close> of the id and
  the name.
\<close>

definition notNonEmptyString :: "json option \<Rightarrow> bool" where
  "notNonEmptyString v =
     (\<not> truthy v \<or> typeof v \<noteq> TString \<or>
      (case v of Some (JStr s) \<Rightarrow> trim s = [] | _ \<Rightarrow> False))"

text \<open>\<^verbatim>\<open>Array.isArray(v) && v.every(x => typeof x === 'string')\<close>.\<close>

definition isStringArray :: "json option \<Rightarrow> bool" where
  "isStringArray v =
     (case v of
        Some (JArr xs) \<Rightarrow> list_all (\<lambda>x. typeof (Some x) = TString) xs
      | _ \<Rightarrow> False)"

text \<open>
  Lines 74 to 92: the id. The state is the result and the set \<^verbatim>\<open>seenIds\<close>.
\<close>

definition duplicateIdMessage :: "nat \<Rightarrow> string \<Rightarrow> string" where
  "duplicateIdMessage index s = drinkPrefix index @ '': duplicate id '' @ quote @ s @ quote"

definition idFormatMessage :: "nat \<Rightarrow> string \<Rightarrow> string" where
  "idFormatMessage index s =
     drinkPrefix index @ '': id '' @ quote @ s @ quote @
     '' must be in snake_case format (lowercase letters, numbers, and underscores only)''"

definition idMissingMessage :: "nat \<Rightarrow> string" where
  "idMissingMessage index = drinkPrefix index @ '': id must be a non-empty string''"

definition validateId ::
  "nat \<Rightarrow> json \<Rightarrow> ValidationResult \<times> string set \<Rightarrow> ValidationResult \<times> string set" where
  "validateId index drink st =
     (case st of (result, seenIds) \<Rightarrow>
        if notNonEmptyString (getProp drink ''id'')
        then (pushError (idMissingMessage index) result, seenIds)
        else
          (case getProp drink ''id'' of
             Some (JStr s) \<Rightarrow>
               (let st1 = (if s \<in> seenIds
                           then (pushError (duplicateIdMessage index s) result, seenIds)
                           else (result, insert s seenIds))
                in if \<not> isSnakeCase s
                   then (pushError (idFormatMessage index s) (fst st1), snd st1)
                   else st1)
           | _ \<Rightarrow> (result, seenIds)))"

text \<open>Lines 94 to 98: the name.\<close>

definition validateName ::
  "(jsnumber \<Rightarrow> string) \<Rightarrow> nat \<Rightarrow> json \<Rightarrow> ValidationResult \<Rightarrow> exception + ValidationResult" where
  "validateName nts index drink result =
     errorWhen (notNonEmptyString (getProp drink ''name''))
       nts index drink ''name must be a non-empty string'' result"

text \<open>Lines 100 to 104: the category.\<close>

definition validateCategory ::
  "(jsnumber \<Rightarrow> string) \<Rightarrow> nat \<Rightarrow> json \<Rightarrow> ValidationResult \<Rightarrow> exception + ValidationResult" where
  "validateCategory nts index drink result =
     errorWhen (\<not> truthy (getProp drink ''category'') \<or>
                typeof (getProp drink ''category'') \<noteq> TString)
       nts index drink ''category must be a string'' result"

text \<open>
  Lines 106 to 110: the popularity. The comparisons \<^verbatim>\<open>< 0\<close> and
  \<^verbatim>\<open>> 100\<close> of a number.
\<close>

fun numberLess :: "jsnumber \<Rightarrow> rat \<Rightarrow> bool" where
  "numberLess (Finite q) b = (q < b)"
| "numberLess PosInfinity b = False"
| "numberLess NegInfinity b = True"

fun numberGreater :: "jsnumber \<Rightarrow> rat \<Rightarrow> bool" where
  "numberGreater (Finite q) b = (b < q)"
| "numberGreater PosInfinity b = True"
| "numberGreater NegInfinity b = False"

definition popularityOutOfRange :: "json option \<Rightarrow> bool" where
  "popularityOutOfRange v =
     (case v of
        Some (JNum n) \<Rightarrow> numberLess n 0 \<or> numberGreater n 100
      | _ \<Rightarrow> True)"

definition popularityText :: "string" where
  "popularityText = ''popularity must be a number between 0 and 100''"

definition validatePopularity ::
  "(jsnumber \<Rightarrow> string) \<Rightarrow> nat \<Rightarrow> json \<Rightarrow> ValidationResult \<Rightarrow> exception + ValidationResult" where
  "validatePopularity nts index drink result =
     errorWhen (popularityOutOfRange (getProp drink ''popularity''))
       nts index drink popularityText result"

text \<open>Lines 112 to 118: the aliases.\<close>

definition validateAliases ::
  "(jsnumber \<Rightarrow> string) \<Rightarrow> nat \<Rightarrow> json \<Rightarrow> ValidationResult \<Rightarrow> exception + ValidationResult" where
  "validateAliases nts index drink result =
     (if truthy (getProp drink ''aliases'')
      then errorWhen (\<not> isStringArray (getProp drink ''aliases''))
             nts index drink ''aliases must be an array of strings if provided'' result
      else Inr result)"

text \<open>Lines 120 to 132: the image path.\<close>

definition validateImagePath ::
  "(jsnumber \<Rightarrow> string) \<Rightarrow> nat \<Rightarrow> json \<Rightarrow> ValidationResult \<Rightarrow> exception + ValidationResult" where
  "validateImagePath nts index drink result =
     (if \<not> truthy (getProp drink ''imagePath'') \<or> typeof (getProp drink ''imagePath'') \<noteq> TString
      then errorFor nts index drink ''imagePath must be a string'' result
      else
        (case getProp drink ''imagePath'' of
           Some (JStr p) \<Rightarrow>
             bindE (errorWhen (\<not> startsWith p ''drinks/'') nts index drink
                      (''imagePath must start with '' @ quote @ ''drinks/'' @ quote) result) (\<lambda>r1.
             warningWhen (\<not> endsWithPng p) nts index drink
               ''imagePath should be a .png file for consistency'' r1)
         | _ \<Rightarrow> Inr result))"

text \<open>
  Lines 134 to 187: the image variants. First the callback of
  \<^verbatim>\<open>variantKeys.forEach\<close> (lines 154 to 165), then the loop, then the rule.
\<close>

definition validateVariant ::
  "(jsnumber \<Rightarrow> string) \<Rightarrow> nat \<Rightarrow> json \<Rightarrow> json \<Rightarrow> string \<Rightarrow> ValidationResult \<Rightarrow> exception + ValidationResult" where
  "validateVariant nts index drink variants variantKey result =
     (case getProp variants variantKey of
        Some (JStr variantPath) \<Rightarrow>
          if trim variantPath = []
          then errorFor nts index drink
                 (''imageVariants.'' @ variantKey @ '' must be a non-empty string'') result
          else errorWhen (\<not> startsWith variantPath ''drinks/_thumbs/'') nts index drink
                 (''imageVariants.'' @ variantKey @ '' must start with '' @ quote @
                  ''drinks/_thumbs/'' @ quote) result
      | _ \<Rightarrow>
          errorFor nts index drink
            (''imageVariants.'' @ variantKey @ '' must be a non-empty string'') result)"

fun forEachVariantKey ::
  "(jsnumber \<Rightarrow> string) \<Rightarrow> nat \<Rightarrow> json \<Rightarrow> json \<Rightarrow> string list \<Rightarrow> ValidationResult \<Rightarrow> exception + ValidationResult" where
  "forEachVariantKey nts index drink variants [] result = Inr result"
| "forEachVariantKey nts index drink variants (variantKey # rest) result =
     bindE (validateVariant nts index drink variants variantKey result)
       (forEachVariantKey nts index drink variants rest)"

text \<open>
  One of the four comparisons of lines 175 to 186:
  \<^verbatim>\<open>if (v && v !== expected) result.warnings?.push(`... ${key} path should be ${expected}`)\<close>.
\<close>

definition expectVariant ::
  "(jsnumber \<Rightarrow> string) \<Rightarrow> nat \<Rightarrow> json \<Rightarrow> string \<Rightarrow> json option \<Rightarrow> string \<Rightarrow> ValidationResult \<Rightarrow> exception + ValidationResult" where
  "expectVariant nts index drink key v expected result =
     warningWhen (truthy v \<and> v \<noteq> Some (JStr expected))
       nts index drink (key @ '' path should be '' @ expected) result"

definition validateImageVariants ::
  "(jsnumber \<Rightarrow> string) \<Rightarrow> nat \<Rightarrow> json \<Rightarrow> ValidationResult \<Rightarrow> exception + ValidationResult" where
  "validateImageVariants nts index drink result =
     (if \<not> truthy (getProp drink ''imageVariants'') \<or>
         typeof (getProp drink ''imageVariants'') \<noteq> TObject
      then errorFor nts index drink ''imageVariants must be an object'' result
      else
        (case getProp drink ''imageVariants'' of
           None \<Rightarrow> Inr result
         | Some variants \<Rightarrow>
            (let variantKeys = objectKeys variants in
             bindE (errorWhen (length variantKeys = 0) nts index drink
                      ''imageVariants must contain at least one variant'' result) (\<lambda>r1.
             bindE (let hasSmMd = (''sm'' \<in> set variantKeys \<and> ''md'' \<in> set variantKeys);
                        hasNumeric = (''512'' \<in> set variantKeys \<and> ''1024'' \<in> set variantKeys)
                    in warningWhen (\<not> hasSmMd \<and> \<not> hasNumeric) nts index drink
                         ''imageVariants should include keys {sm, md} (or {512, 1024} for legacy)''
                         r1) (\<lambda>r2.
             bindE (forEachVariantKey nts index drink variants variantKeys r2) (\<lambda>r3.
             bindE (pathExtname (getProp drink ''imagePath'')) (\<lambda>ext.
             bindE (pathBasename (getProp drink ''imagePath'') ext) (\<lambda>base.
             (let expected512 = ''drinks/_thumbs/'' @ base @ ''_512.png'';
                  expected1024 = ''drinks/_thumbs/'' @ base @ ''_1024.png'';
                  smPath = getProp variants ''sm'';
                  mdPath = getProp variants ''md'';
                  v512 = getProp variants ''512'';
                  v1024 = getProp variants ''1024''
              in
              bindE (expectVariant nts index drink ''sm'' smPath expected512 r3) (\<lambda>r4.
              bindE (expectVariant nts index drink ''md'' mdPath expected1024 r4) (\<lambda>r5.
              bindE (expectVariant nts index drink ''512'' v512 expected512 r5) (\<lambda>r6.
              expectVariant nts index drink ''1024'' v1024 expected1024 r6))))))))))))"

text \<open>Lines 189 to 195: the supported modifiers.\<close>

definition modifiersText :: "string" where
  "modifiersText = ''modifiersSupported must be an array of strings if provided''"

definition validateModifiersSupported ::
  "(jsnumber \<Rightarrow> string) \<Rightarrow> nat \<Rightarrow> json \<Rightarrow> ValidationResult \<Rightarrow> exception + ValidationResult" where
  "validateModifiersSupported nts index drink result =
     (if truthy (getProp drink ''modifiersSupported'')
      then errorWhen (\<not> isStringArray (getProp drink ''modifiersSupported''))
             nts index drink modifiersText result
      else Inr result)"

subsection \<open>The pass over the entries\<close>

text \<open>
  The callback of \<^verbatim>\<open>drinks.forEach((drink, index) => ...)\<close>, lines 64 to 196,
  and the loop. An exception thrown by a rule leaves the loop and the function.
\<close>

definition notAnObjectMessage :: "nat \<Rightarrow> string" where
  "notAnObjectMessage index = drinkPrefix index @ '': must be an object''"

definition validateDrink ::
  "(jsnumber \<Rightarrow> string) \<Rightarrow> nat \<Rightarrow> json \<Rightarrow> ValidationResult \<times> string set \<Rightarrow> exception + ValidationResult \<times> string set" where
  "validateDrink nts index drink st =
     (if typeof (Some drink) \<noteq> TObject \<or> drink = JNull
      then Inr (pushError (notAnObjectMessage index) (fst st), snd st)
      else
        (let st1 = validateId index drink st in
         bindE (validateName nts index drink (fst st1)) (\<lambda>r2.
         bindE (validateCategory nts index drink r2) (\<lambda>r3.
         bindE (validatePopularity nts index drink r3) (\<lambda>r4.
         bindE (validateAliases nts index drink r4) (\<lambda>r5.
         bindE (validateImagePath nts index drink r5) (\<lambda>r6.
         bindE (validateImageVariants nts index drink r6) (\<lambda>r7.
         bindE (validateModifiersSupported nts index drink r7) (\<lambda>r8.
         Inr (r8, snd st1))))))))))"

fun forEachDrink ::
  "(jsnumber \<Rightarrow> string) \<Rightarrow> nat \<Rightarrow> json list \<Rightarrow> ValidationResult \<times> string set \<Rightarrow> exception + ValidationResult \<times> string set" where
  "forEachDrink nts index [] st = Inr st"
| "forEachDrink nts index (drink # rest) st =
     bindE (validateDrink nts index drink st) (forEachDrink nts (Suc index) rest)"

subsection \<open>The check of the image files\<close>

text \<open>
  Lines 202 to 220, run only when the toggle is on. The callback reads
  \<^verbatim>\<open>drink.id\<close> with no test of \<^verbatim>\<open>drink\<close>: on \<^verbatim>\<open>null\<close> the read
  throws. \<^verbatim>\<open>path.join\<close> throws when the path it is given is not a string.
\<close>

definition interpolate :: "(jsnumber \<Rightarrow> string) \<Rightarrow> json option \<Rightarrow> exception + string" where
  "interpolate nts v = (case v of None \<Rightarrow> Inr ''undefined'' | Some x \<Rightarrow> toStringJS nts x)"

definition checkVariantFile ::
  "(jsnumber \<Rightarrow> string) \<Rightarrow> (string \<Rightarrow> bool) \<Rightarrow> json \<Rightarrow> string \<times> json \<Rightarrow> ValidationResult \<Rightarrow> exception + ValidationResult" where
  "checkVariantFile nts exists drink entry result =
     (case entry of (variant, imagePath) \<Rightarrow>
        (case imagePath of
           JStr p \<Rightarrow>
             if \<not> exists p then
               bindE (interpolate nts (getProp drink ''id'')) (\<lambda>ids.
                 Inr (pushError
                        (''Image variant file not found: '' @ p @ '' ('' @ variant @
                         '') for drink '' @ quote @ ids @ quote) result))
             else Inr result
         | _ \<Rightarrow> Inl TypeError))"

fun forEachVariantFile ::
  "(jsnumber \<Rightarrow> string) \<Rightarrow> (string \<Rightarrow> bool) \<Rightarrow> json \<Rightarrow> (string \<times> json) list \<Rightarrow> ValidationResult \<Rightarrow> exception + ValidationResult" where
  "forEachVariantFile nts exists drink [] result = Inr result"
| "forEachVariantFile nts exists drink (entry # rest) result =
     bindE (checkVariantFile nts exists drink entry result)
       (forEachVariantFile nts exists drink rest)"

definition checkImageFilesOf ::
  "(jsnumber \<Rightarrow> string) \<Rightarrow> (string \<Rightarrow> bool) \<Rightarrow> json \<Rightarrow> ValidationResult \<Rightarrow> exception + ValidationResult" where
  "checkImageFilesOf nts exists drink result =
     (if drink = JNull then Inl TypeError
      else if \<not> truthy (getProp drink ''id'') \<or> \<not> truthy (getProp drink ''imagePath'')
      then Inr result
      else
        (case getProp drink ''imagePath'' of
           Some (JStr p) \<Rightarrow>
             bindE (if \<not> exists p
                    then bindE (interpolate nts (getProp drink ''id'')) (\<lambda>ids.
                           Inr (pushError
                                  (''Image file not found: '' @ p @ '' for drink '' @ quote @
                                   ids @ quote) result))
                    else Inr result) (\<lambda>r1.
             if truthy (getProp drink ''imageVariants'')
             then (case getProp drink ''imageVariants'' of
                     Some variants \<Rightarrow> forEachVariantFile nts exists drink (ownEntries variants) r1
                   | None \<Rightarrow> Inr r1)
             else Inr r1)
         | _ \<Rightarrow> Inl TypeError))"

fun forEachImageCheck ::
  "(jsnumber \<Rightarrow> string) \<Rightarrow> (string \<Rightarrow> bool) \<Rightarrow> json list \<Rightarrow> ValidationResult \<Rightarrow> exception + ValidationResult" where
  "forEachImageCheck nts exists [] result = Inr result"
| "forEachImageCheck nts exists (drink # rest) result =
     bindE (checkImageFilesOf nts exists drink result) (forEachImageCheck nts exists rest)"

subsection \<open>The flags file\<close>

text \<open>Lines 223 to 245. Nothing in the \<^verbatim>\<open>try\<close> block throws but the read and the parse.\<close>

definition validateFlags :: "jsonFile \<Rightarrow> ValidationResult \<Rightarrow> ValidationResult" where
  "validateFlags file result =
     (case file of
        Missing \<Rightarrow> result
      | Unparsable message \<Rightarrow> pushError (''Failed to parse flags.json: '' @ message) result
      | Parsed flags \<Rightarrow>
          if typeof (Some flags) \<noteq> TObject \<or> flags = JNull
          then pushError ''flags.json must be a JSON object'' result
          else
            (let r1 = (if getProp flags ''forceTextOnly'' \<noteq> None \<and>
                          typeof (getProp flags ''forceTextOnly'') \<noteq> TBoolean
                       then pushError ''flags.json: forceTextOnly must be a boolean'' result
                       else result)
             in if getProp flags ''catalogVersion'' \<noteq> None \<and>
                   typeof (getProp flags ''catalogVersion'') \<noteq> TString
                then pushError ''flags.json: catalogVersion must be a string'' r1
                else r1))"

subsection \<open>validateCatalog\<close>

definition validateCatalog :: "environment \<Rightarrow> exception + ValidationResult" where
  "validateCatalog env =
     (case drinksJson env of
        Missing \<Rightarrow> Inr (pushError ''drinks.json file not found'' initialResult)
      | Unparsable message \<Rightarrow>
          Inr (pushError (''Failed to parse drinks.json: '' @ message) initialResult)
      | Parsed parsed \<Rightarrow>
          (case parsed of
             JArr drinks \<Rightarrow>
               bindE (forEachDrink (numberToString env) 0 drinks (initialResult, {})) (\<lambda>st.
               bindE (if validateImageFiles env = Some ''true''
                      then forEachImageCheck (numberToString env) (existsSync env) drinks (fst st)
                      else Inr (fst st)) (\<lambda>r2.
               Inr (validateFlags (flagsJson env) r2)))
           | _ \<Rightarrow>
               Inr (pushError ''drinks.json must contain an array of drink entries''
                      initialResult)))"

subsection \<open>Sample inputs\<close>

text \<open>
  The entry of the README (\<^verbatim>\<open>margarita\<close>), with its id, popularity and variants left
  open, and a run that has a catalog of such entries, no flags file and the toggle unset.
\<close>

definition goodVariants :: "json" where
  "goodVariants =
     JObj [(''sm'', JStr ''drinks/_thumbs/margarita_512.png''),
           (''md'', JStr ''drinks/_thumbs/margarita_1024.png'')]"

definition sampleDrink :: "json \<Rightarrow> json \<Rightarrow> json \<Rightarrow> json" where
  "sampleDrink ident popularity variants =
     JObj [(''id'', ident), (''name'', JStr ''Margarita''), (''category'', JStr ''Classic''),
           (''popularity'', popularity), (''imagePath'', JStr ''drinks/margarita.png''),
           (''imageVariants'', variants)]"

definition margarita :: "json" where
  "margarita = sampleDrink (JStr ''margarita'') (JNum (Finite 98)) goodVariants"

definition withProperty :: "string \<Rightarrow> json \<Rightarrow> json \<Rightarrow> json" where
  "withProperty k v d = (case d of JObj kvs \<Rightarrow> JObj (kvs @ [(k, v)]) | _ \<Rightarrow> d)"

definition withoutProperty :: "string \<Rightarrow> json \<Rightarrow> json" where
  "withoutProperty k d =
     (case d of JObj kvs \<Rightarrow> JObj (filter (\<lambda>kv. fst kv \<noteq> k) kvs) | _ \<Rightarrow> d)"

definition plainRun :: "json list \<Rightarrow> environment" where
  "plainRun drinks =
     \<lparr>drinksJson = Parsed (JArr drinks), flagsJson = Missing, validateImageFiles = None,
      existsSync = (\<lambda>p. False), numberToString = (\<lambda>n. ''0'')\<rparr>"

section \<open>Auxiliary notions for the proofs\<close>

subsection \<open>Reading an index back from a message\<close>

definition isDigit :: "char \<Rightarrow> bool" where
  "isDigit c = (c \<in> set ''0123456789'')"

text \<open>The value of a digit is its position among the digits.\<close>

definition digitValue :: "char \<Rightarrow> nat" where
  "digitValue c = length (takeWhile (\<lambda>x. x \<noteq> c) ''0123456789'')"

definition readNat :: "string \<Rightarrow> nat" where
  "readNat s = foldl (\<lambda>a c. 10 * a + digitValue c) 0 s"

text \<open>
  A message is about index \<open>j\<close> when it starts with \<^verbatim>\<open>Drink at index j\<close> followed by
  a colon or a space, the two ways in which the validator continues the prefix.
\<close>

definition forIndex :: "nat \<Rightarrow> string \<Rightarrow> bool" where
  "forIndex j m = (startsWith m (drinkPrefix j @ '':'') \<or> startsWith m (drinkPrefix j @ '' ''))"

subsection \<open>The errors a run appends, as lists\<close>

text \<open>
  \<open>adds r es r'\<close>: the result \<open>r'\<close> is \<open>r\<close> with the errors \<open>es\<close> appended, and its
  success flag was cleared exactly when \<open>es\<close> is not empty.
\<close>

definition adds :: "ValidationResult \<Rightarrow> string list \<Rightarrow> ValidationResult \<Rightarrow> bool" where
  "adds r es r' = (errors r' = errors r @ es \<and> success r' = (success r \<and> es = []))"

text \<open>The label of an entry's messages, when its conversion does not throw.\<close>

definition labelOf :: "(jsnumber \<Rightarrow> string) \<Rightarrow> json \<Rightarrow> string" where
  "labelOf nts d = (case idOrUnknown nts d of Inr l \<Rightarrow> l | Inl e \<Rightarrow> [])"

definition labelledAll :: "(jsnumber \<Rightarrow> string) \<Rightarrow> nat \<Rightarrow> json \<Rightarrow> string list \<Rightarrow> string list" where
  "labelledAll nts i d texts = map (labelled i (labelOf nts d)) texts"

definition textIf :: "bool \<Rightarrow> string \<Rightarrow> string list" where
  "textIf c text = (if c then [text] else [])"

text \<open>An entry is taken for an object when it passes the test of line 68.\<close>

definition isObjectValue :: "json \<Rightarrow> bool" where
  "isObjectValue d = (typeof (Some d) = TObject \<and> d \<noteq> JNull)"

text \<open>The id of an entry that passes the object test and the non-empty-string test of line 75.\<close>

definition acceptedId :: "json \<Rightarrow> string option" where
  "acceptedId d =
     (if isObjectValue d \<and> \<not> notNonEmptyString (getProp d ''id'')
      then (case getProp d ''id'' of Some (JStr s) \<Rightarrow> Some s | _ \<Rightarrow> None)
      else None)"

definition newIds :: "json \<Rightarrow> string set" where
  "newIds d = (case acceptedId d of Some s \<Rightarrow> {s} | None \<Rightarrow> {})"

definition idsOf :: "json list \<Rightarrow> string set" where
  "idsOf ds = \<Union> (set (map newIds ds))"

definition idErrors :: "nat \<Rightarrow> json \<Rightarrow> string set \<Rightarrow> string list" where
  "idErrors i d seen =
     (if notNonEmptyString (getProp d ''id'') then [idMissingMessage i]
      else
        (case getProp d ''id'' of
           Some (JStr s) \<Rightarrow>
             (if s \<in> seen then [duplicateIdMessage i s] else []) @
             (if \<not> isSnakeCase s then [idFormatMessage i s] else [])
         | _ \<Rightarrow> []))"

text \<open>The texts of the labelled errors of an entry, rule by rule.\<close>

definition imagePathTexts :: "json \<Rightarrow> string list" where
  "imagePathTexts d =
     (if \<not> truthy (getProp d ''imagePath'') \<or> typeof (getProp d ''imagePath'') \<noteq> TString
      then [''imagePath must be a string'']
      else
        (case getProp d ''imagePath'' of
           Some (JStr p) \<Rightarrow>
             textIf (\<not> startsWith p ''drinks/'')
               (''imagePath must start with '' @ quote @ ''drinks/'' @ quote)
         | _ \<Rightarrow> []))"

definition variantTexts :: "json \<Rightarrow> string \<Rightarrow> string list" where
  "variantTexts variants k =
     (case getProp variants k of
        Some (JStr p) \<Rightarrow>
          if trim p = []
          then [''imageVariants.'' @ k @ '' must be a non-empty string'']
          else textIf (\<not> startsWith p ''drinks/_thumbs/'')
                 (''imageVariants.'' @ k @ '' must start with '' @ quote @ ''drinks/_thumbs/'' @ quote)
      | _ \<Rightarrow> [''imageVariants.'' @ k @ '' must be a non-empty string''])"

definition imageVariantsTexts :: "json \<Rightarrow> string list" where
  "imageVariantsTexts d =
     (if \<not> truthy (getProp d ''imageVariants'') \<or> typeof (getProp d ''imageVariants'') \<noteq> TObject
      then [''imageVariants must be an object'']
      else
        (case getProp d ''imageVariants'' of
           None \<Rightarrow> []
         | Some variants \<Rightarrow>
             textIf (length (objectKeys variants) = 0)
               ''imageVariants must contain at least one variant'' @
             concat (map (variantTexts variants) (objectKeys variants))))"

definition fieldTexts :: "json \<Rightarrow> string list" where
  "fieldTexts d =
     textIf (notNonEmptyString (getProp d ''name'')) ''name must be a non-empty string'' @
     textIf (\<not> truthy (getProp d ''category'') \<or> typeof (getProp d ''category'') \<noteq> TString)
       ''category must be a string'' @
     textIf (popularityOutOfRange (getProp d ''popularity'')) popularityText @
     textIf (truthy (getProp d ''aliases'') \<and> \<not> isStringArray (getProp d ''aliases''))
       ''aliases must be an array of strings if provided'' @
     imagePathTexts d @
     imageVariantsTexts d @
     textIf (truthy (getProp d ''modifiersSupported'') \<and>
             \<not> isStringArray (getProp d ''modifiersSupported'')) modifiersText"

text \<open>The errors of the rules on entry \<open>i\<close>, with \<open>seen\<close> the ids accepted before it.\<close>

definition drinkErrors :: "(jsnumber \<Rightarrow> string) \<Rightarrow> nat \<Rightarrow> json \<Rightarrow> string set \<Rightarrow> string list" where
  "drinkErrors nts i d seen =
     (if isObjectValue d then idErrors i d seen @ labelledAll nts i d (fieldTexts d)
      else [notAnObjectMessage i])"

fun catalogErrors :: "(jsnumber \<Rightarrow> string) \<Rightarrow> nat \<Rightarrow> json list \<Rightarrow> string set \<Rightarrow> string list" where
  "catalogErrors nts i [] seen = []"
| "catalogErrors nts i (d # ds) seen =
     drinkErrors nts i d seen @ catalogErrors nts (Suc i) ds (seen \<union> newIds d)"

definition flagsErrors :: "jsonFile \<Rightarrow> string list" where
  "flagsErrors flags = errors (validateFlags flags initialResult)"

text \<open>An error of the check of the image files: both of its messages start like this.\<close>

definition fileNotFoundError :: "string \<Rightarrow> bool" where
  "fileNotFoundError m =
     (startsWith m ''Image file not found: '' \<or> startsWith m ''Image variant file not found: '')"

definition firstChar :: "string \<Rightarrow> char option" where
  "firstChar m = (case m of [] \<Rightarrow> None | c # t \<Rightarrow> Some c)"

definition isUpperCase :: "char \<Rightarrow> bool" where
  "isUpperCase c = (c \<in> set ''ABCDEFGHIJKLMNOPQRSTUVWXYZ'')"

subsection \<open>The warnings a run appends, as lists\<close>

text \<open>\<open>warns r ws r'\<close>: the result \<open>r'\<close> has the warnings of \<open>r\<close> with \<open>ws\<close> appended.\<close>

definition warns :: "ValidationResult \<Rightarrow> string list \<Rightarrow> ValidationResult \<Rightarrow> bool" where
  "warns r ws r' = (warnings r' = warnings r @ ws)"

text \<open>The base name line 168 computes, when the two calls do not throw.\<close>

definition baseOf :: "json \<Rightarrow> string" where
  "baseOf d =
     (case bindE (pathExtname (getProp d ''imagePath'')) (pathBasename (getProp d ''imagePath'')) of
        Inr base \<Rightarrow> base
      | Inl e \<Rightarrow> [])"

definition mismatchText :: "string \<Rightarrow> string \<Rightarrow> string" where
  "mismatchText key expected = key @ '' path should be '' @ expected"

definition imagePathWarningTexts :: "json \<Rightarrow> string list" where
  "imagePathWarningTexts d =
     (if \<not> truthy (getProp d ''imagePath'') \<or> typeof (getProp d ''imagePath'') \<noteq> TString
      then []
      else
        (case getProp d ''imagePath'' of
           Some (JStr p) \<Rightarrow>
             textIf (\<not> endsWithPng p) ''imagePath should be a .png file for consistency''
         | _ \<Rightarrow> []))"

definition imageVariantsWarningTexts :: "json \<Rightarrow> string list" where
  "imageVariantsWarningTexts d =
     (if \<not> truthy (getProp d ''imageVariants'') \<or> typeof (getProp d ''imageVariants'') \<noteq> TObject
      then []
      else
        (case getProp d ''imageVariants'' of
           None \<Rightarrow> []
         | Some variants \<Rightarrow>
             (let expected512 = ''drinks/_thumbs/'' @ baseOf d @ ''_512.png'';
                  expected1024 = ''drinks/_thumbs/'' @ baseOf d @ ''_1024.png''
              in
              textIf (\<not> (''sm'' \<in> set (objectKeys variants) \<and> ''md'' \<in> set (objectKeys variants)) \<and>
                      \<not> (''512'' \<in> set (objectKeys variants) \<and> ''1024'' \<in> set (objectKeys variants)))
                ''imageVariants should include keys {sm, md} (or {512, 1024} for legacy)'' @
              textIf (truthy (getProp variants ''sm'') \<and>
                      getProp variants ''sm'' \<noteq> Some (JStr expected512))
                (mismatchText ''sm'' expected512) @
              textIf (truthy (getProp variants ''md'') \<and>
                      getProp variants ''md'' \<noteq> Some (JStr expected1024))
                (mismatchText ''md'' expected1024) @
              textIf (truthy (getProp variants ''512'') \<and>
                      getProp variants ''512'' \<noteq> Some (JStr expected512))
                (mismatchText ''512'' expected512) @
              textIf (truthy (getProp variants ''1024'') \<and>
                      getProp variants ''1024'' \<noteq> Some (JStr expected1024))
                (mismatchText ''1024'' expected1024))))"

text \<open>The warnings of the rules on entry \<open>i\<close>.\<close>

definition drinkWarnings :: "(jsnumber \<Rightarrow> string) \<Rightarrow> nat \<Rightarrow> json \<Rightarrow> string list" where
  "drinkWarnings nts i d =
     (if isObjectValue d
      then labelledAll nts i d (imagePathWarningTexts d @ imageVariantsWarningTexts d)
      else [])"

fun catalogWarnings :: "(jsnumber \<Rightarrow> string) \<Rightarrow> nat \<Rightarrow> json list \<Rightarrow> string list" where
  "catalogWarnings nts i [] = []"
| "catalogWarnings nts i (d # ds) = drinkWarnings nts i d @ catalogWarnings nts (Suc i) ds"

section \<open>Checks of the model of Node's path functions\<close>

text \<open>The examples of Node's documentation of \<^verbatim>\<open>path.extname\<close> and \<^verbatim>\<open>path.basename\<close>.\<close>

lemma extname_examples:
  "extname ''index.html'' = ''.html''"
  "extname ''index.coffee.md'' = ''.md''"
  "extname ''index.'' = ''.''"
  "extname ''index'' = []"
  "extname ''.index'' = []"
  "extname ''.index.md'' = ''.md''"
  by code_simp+

lemma basename_examples:
  "basename ''/foo/bar/baz/asdf/quux.html'' [] = ''quux.html''"
  "basename ''/foo/bar/baz/asdf/quux.html'' ''.html'' = ''quux''"
  "basename ''drinks/margarita.png'' (extname ''drinks/margarita.png'') = ''margarita''"
  by code_simp+

section \<open>Basic facts\<close>

lemma bindE_Inr_iff:
  "(bindE m f = Inr y) = (\<exists>x. m = Inr x \<and> f x = Inr y)"
  by (cases m) (simp_all add: bindE_def)

lemma bindE_Inr [simp]: "bindE (Inr x) f = f x"
  by (simp add: bindE_def)

lemma bindE_Inl [simp]: "bindE (Inl e) f = Inl e"
  by (simp add: bindE_def)

subsection \<open>The decimal index can be read back\<close>

lemma less_ten_cases:
  "d < (10::nat) \<Longrightarrow>
   d = 0 \<or> d = 1 \<or> d = 2 \<or> d = 3 \<or> d = 4 \<or> d = 5 \<or> d = 6 \<or> d = 7 \<or> d = 8 \<or> d = 9"
  by arith

lemma digitValue_digitChar: "d < 10 \<Longrightarrow> digitValue (digitChar d) = d"
  using less_ten_cases [of d] by (auto simp add: digitChar_def digitValue_def)

lemma isDigit_digitChar: "d < 10 \<Longrightarrow> isDigit (digitChar d)"
  using less_ten_cases [of d] by (auto simp add: digitChar_def isDigit_def)

lemma readNat_snoc: "readNat (s @ [c]) = 10 * readNat s + digitValue c"
  by (simp add: readNat_def)

lemma readNat_showNat: "readNat (showNat n) = n"
proof (induction n rule: showNat.induct)
  case (1 n)
  show ?case
  proof (cases "n < 10")
    case True
    then show ?thesis
      by (subst showNat.simps) (simp add: readNat_def digitValue_digitChar)
  next
    case False
    then have "readNat (showNat (n div 10)) = n div 10"
      using "1.IH" by simp
    with False show ?thesis
      by (subst showNat.simps) (simp add: readNat_snoc digitValue_digitChar)
  qed
qed

lemma showNat_inj: "showNat a = showNat b \<Longrightarrow> a = b"
  by (metis readNat_showNat)

lemma showNat_digits: "list_all isDigit (showNat n)"
proof (induction n rule: showNat.induct)
  case (1 n)
  show ?case
  proof (cases "n < 10")
    case True
    then show ?thesis
      by (subst showNat.simps) (simp add: isDigit_digitChar)
  next
    case False
    then have "list_all isDigit (showNat (n div 10))"
      using "1.IH" by simp
    with False show ?thesis
      by (subst showNat.simps) (simp add: isDigit_digitChar)
  qed
qed

lemma digits_then_stop:
  "list_all isDigit a \<Longrightarrow> list_all isDigit b \<Longrightarrow> \<not> isDigit c \<Longrightarrow> \<not> isDigit c' \<Longrightarrow>
   take (Suc (length a)) (b @ c # t) = a @ [c'] \<Longrightarrow> a = b"
proof (induction a arbitrary: b)
  case Nil
  then show ?case by (cases b) auto
next
  case (Cons x a)
  show ?case
  proof (cases b)
    case Nil
    with Cons.prems show ?thesis by auto
  next
    case (Cons y b')
    with Cons.prems Cons.IH [of b'] show ?thesis by auto
  qed
qed

lemma startsWith_append_same [simp]: "startsWith (p @ x) (p @ y) = startsWith x y"
  by (simp add: startsWith_def)

lemma startsWith_self_append [simp]: "startsWith (p @ x) p"
  by (simp add: startsWith_def)

lemma showNat_prefix_stop:
  assumes "startsWith (showNat k @ c # t) (showNat j @ [c'])" "\<not> isDigit c" "\<not> isDigit c'"
  shows "j = k"
proof -
  have "take (Suc (length (showNat j))) (showNat k @ c # t) = showNat j @ [c']"
    using assms(1) by (simp add: startsWith_def)
  then have "showNat j = showNat k"
    using digits_then_stop [OF showNat_digits showNat_digits assms(2,3)] by blast
  then show ?thesis by (rule showNat_inj)
qed

lemma startsWith_drinkPrefix:
  "startsWith (drinkPrefix k @ x) (drinkPrefix j @ y) = startsWith (showNat k @ x) (showNat j @ y)"
  by (simp only: drinkPrefix_def append_assoc startsWith_append_same)

lemma forIndex_stop:
  assumes "\<not> isDigit c"
  shows "forIndex j (drinkPrefix k @ c # t) = (j = k \<and> (c = CHR '':'' \<or> c = CHR '' ''))"
proof
  assume "forIndex j (drinkPrefix k @ c # t)"
  then have *: "startsWith (showNat k @ c # t) (showNat j @ '':'') \<or>
             startsWith (showNat k @ c # t) (showNat j @ '' '')"
    by (simp only: forIndex_def startsWith_drinkPrefix)
  have d: "\<not> isDigit CHR '':''" "\<not> isDigit CHR '' ''"
    by (simp_all add: isDigit_def)
  from * have jk: "j = k"
    using showNat_prefix_stop [OF _ assms d(1)] showNat_prefix_stop [OF _ assms d(2)] by blast
  with * have "startsWith (c # t) '':'' \<or> startsWith (c # t) '' ''"
    by (simp only: startsWith_append_same)
  then have "c = CHR '':'' \<or> c = CHR '' ''"
    by (auto simp add: startsWith_def)
  with jk show "j = k \<and> (c = CHR '':'' \<or> c = CHR '' '')" by simp
next
  assume "j = k \<and> (c = CHR '':'' \<or> c = CHR '' '')"
  then show "forIndex j (drinkPrefix k @ c # t)"
    by (auto simp add: forIndex_def startsWith_def)
qed

lemma forIndex_colon [simp]: "forIndex j (drinkPrefix k @ CHR '':'' # t) = (j = k)"
  by (simp add: forIndex_stop isDigit_def)

lemma forIndex_space [simp]: "forIndex j (drinkPrefix k @ CHR '' '' # t) = (j = k)"
  by (simp add: forIndex_stop isDigit_def)

subsection \<open>Every step appends errors and clears the flag with them\<close>

lemma adds_refl: "adds r [] r"
  by (simp add: adds_def)

lemma adds_trans: "adds r es r1 \<Longrightarrow> adds r1 fs r2 \<Longrightarrow> adds r (es @ fs) r2"
  by (auto simp add: adds_def)

lemma adds_pushError: "adds r [m] (pushError m r)"
  by (simp add: adds_def pushError_def)

lemma adds_pushWarning: "adds r [] (pushWarning w r)"
  by (simp add: adds_def pushWarning_def)

lemma labelledAll_append:
  "labelledAll nts i d (xs @ ys) = labelledAll nts i d xs @ labelledAll nts i d ys"
  by (simp add: labelledAll_def)

lemma labelledAll_Nil: "labelledAll nts i d [] = []"
  by (simp add: labelledAll_def)

lemma errorFor_adds:
  "errorFor nts i d text r = Inr r' \<Longrightarrow> adds r (labelledAll nts i d [text]) r'"
  by (auto simp add: errorFor_def bindE_Inr_iff labelOf_def labelledAll_def adds_pushError)

lemma warningFor_adds: "warningFor nts i d text r = Inr r' \<Longrightarrow> adds r [] r'"
  by (auto simp add: warningFor_def bindE_Inr_iff adds_pushWarning)

lemma errorWhen_adds:
  "errorWhen c nts i d text r = Inr r' \<Longrightarrow> adds r (labelledAll nts i d (textIf c text)) r'"
  by (cases c)
    (auto simp add: errorWhen_def textIf_def errorFor_adds labelledAll_Nil adds_refl)

lemma warningWhen_adds: "warningWhen c nts i d text r = Inr r' \<Longrightarrow> adds r [] r'"
  by (cases c) (auto simp add: warningWhen_def warningFor_adds adds_refl)

lemma validateName_adds:
  "validateName nts i d r = Inr r' \<Longrightarrow>
   adds r (labelledAll nts i d
             (textIf (notNonEmptyString (getProp d ''name'')) ''name must be a non-empty string'')) r'"
  unfolding validateName_def by (rule errorWhen_adds)

lemma validateCategory_adds:
  "validateCategory nts i d r = Inr r' \<Longrightarrow>
   adds r (labelledAll nts i d
             (textIf (\<not> truthy (getProp d ''category'') \<or> typeof (getProp d ''category'') \<noteq> TString)
                ''category must be a string'')) r'"
  unfolding validateCategory_def by (rule errorWhen_adds)

lemma validatePopularity_adds:
  "validatePopularity nts i d r = Inr r' \<Longrightarrow>
   adds r (labelledAll nts i d
             (textIf (popularityOutOfRange (getProp d ''popularity'')) popularityText)) r'"
  unfolding validatePopularity_def by (rule errorWhen_adds)

lemma validateAliases_adds:
  assumes "validateAliases nts i d r = Inr r'"
  shows "adds r (labelledAll nts i d
                   (textIf (truthy (getProp d ''aliases'') \<and> \<not> isStringArray (getProp d ''aliases''))
                      ''aliases must be an array of strings if provided'')) r'"
proof (cases "truthy (getProp d ''aliases'')")
  case True
  with assms show ?thesis
    by (simp add: validateAliases_def errorWhen_adds)
next
  case False
  with assms show ?thesis
    by (simp add: validateAliases_def textIf_def labelledAll_Nil adds_refl)
qed

lemma validateModifiersSupported_adds:
  assumes "validateModifiersSupported nts i d r = Inr r'"
  shows "adds r (labelledAll nts i d
                   (textIf (truthy (getProp d ''modifiersSupported'') \<and>
                            \<not> isStringArray (getProp d ''modifiersSupported'')) modifiersText)) r'"
proof (cases "truthy (getProp d ''modifiersSupported'')")
  case True
  with assms show ?thesis
    by (simp add: validateModifiersSupported_def errorWhen_adds)
next
  case False
  with assms show ?thesis
    by (simp add: validateModifiersSupported_def textIf_def labelledAll_Nil adds_refl)
qed

lemma validateImagePath_adds:
  assumes "validateImagePath nts i d r = Inr r'"
  shows "adds r (labelledAll nts i d (imagePathTexts d)) r'"
proof (cases "\<not> truthy (getProp d ''imagePath'') \<or> typeof (getProp d ''imagePath'') \<noteq> TString")
  case True
  with assms have "errorFor nts i d ''imagePath must be a string'' r = Inr r'"
    by (simp add: validateImagePath_def)
  then have "adds r (labelledAll nts i d [''imagePath must be a string'']) r'"
    by (rule errorFor_adds)
  with True show ?thesis
    by (simp add: imagePathTexts_def)
next
  case False
  then obtain p where p: "getProp d ''imagePath'' = Some (JStr p)"
    by (cases "getProp d ''imagePath''" rule: typeof.cases) auto
  from assms False p obtain r1 where
    r1: "errorWhen (\<not> startsWith p ''drinks/'') nts i d
           (''imagePath must start with '' @ quote @ ''drinks/'' @ quote) r = Inr r1" and
    r2: "warningWhen (\<not> endsWithPng p) nts i d
           ''imagePath should be a .png file for consistency'' r1 = Inr r'"
    by (auto simp add: validateImagePath_def bindE_Inr_iff)
  from adds_trans [OF errorWhen_adds [OF r1] warningWhen_adds [OF r2]] False p
  show ?thesis
    by (simp add: imagePathTexts_def)
qed

lemma validateVariant_adds:
  assumes "validateVariant nts i d variants k r = Inr r'"
  shows "adds r (labelledAll nts i d (variantTexts variants k)) r'"
proof (cases "\<exists>p. getProp variants k = Some (JStr p)")
  case True
  then obtain p where p: "getProp variants k = Some (JStr p)" by blast
  show ?thesis
  proof (cases "trim p = []")
    case True
    with assms p show ?thesis
      by (simp add: validateVariant_def variantTexts_def errorFor_adds)
  next
    case False
    with assms p show ?thesis
      by (simp add: validateVariant_def variantTexts_def errorWhen_adds)
  qed
next
  case False
  then have "validateVariant nts i d variants k r =
             errorFor nts i d (''imageVariants.'' @ k @ '' must be a non-empty string'') r"
    and "variantTexts variants k = [''imageVariants.'' @ k @ '' must be a non-empty string'']"
    by (auto simp add: validateVariant_def variantTexts_def split: option.splits json.splits)
  with assms show ?thesis
    by (simp add: errorFor_adds)
qed

lemma forEachVariantKey_adds:
  "forEachVariantKey nts i d variants ks r = Inr r' \<Longrightarrow>
   adds r (labelledAll nts i d (concat (map (variantTexts variants) ks))) r'"
proof (induction ks arbitrary: r)
  case Nil
  then show ?case by (simp add: adds_refl labelledAll_Nil)
next
  case (Cons k ks)
  then obtain r1 where
    "validateVariant nts i d variants k r = Inr r1"
    "forEachVariantKey nts i d variants ks r1 = Inr r'"
    by (auto simp add: bindE_Inr_iff)
  then show ?case
    using adds_trans [OF validateVariant_adds Cons.IH] by (simp add: labelledAll_append)
qed

lemma expectVariant_adds: "expectVariant nts i d key v expected r = Inr r' \<Longrightarrow> adds r [] r'"
  unfolding expectVariant_def by (rule warningWhen_adds)

lemma validateImageVariants_adds:
  assumes "validateImageVariants nts i d r = Inr r'"
  shows "adds r (labelledAll nts i d (imageVariantsTexts d)) r'"
proof (cases "\<not> truthy (getProp d ''imageVariants'') \<or>
              typeof (getProp d ''imageVariants'') \<noteq> TObject")
  case True
  with assms have "errorFor nts i d ''imageVariants must be an object'' r = Inr r'"
    by (simp add: validateImageVariants_def)
  then have "adds r (labelledAll nts i d [''imageVariants must be an object'']) r'"
    by (rule errorFor_adds)
  with True show ?thesis
    by (simp add: imageVariantsTexts_def)
next
  case False
  then obtain variants where v: "getProp d ''imageVariants'' = Some variants"
    by (cases "getProp d ''imageVariants''") auto
  from assms False v obtain r1 r2 r3 r4 r5 r6 c key1 v1 e1 key2 v2 e2 key3 v3 e3 key4 v4 e4 where
    s1: "errorWhen (length (objectKeys variants) = 0) nts i d
           ''imageVariants must contain at least one variant'' r = Inr r1" and
    s2: "warningWhen c nts i d
           ''imageVariants should include keys {sm, md} (or {512, 1024} for legacy)'' r1 = Inr r2" and
    s3: "forEachVariantKey nts i d variants (objectKeys variants) r2 = Inr r3" and
    s4: "expectVariant nts i d key1 v1 e1 r3 = Inr r4" and
    s5: "expectVariant nts i d key2 v2 e2 r4 = Inr r5" and
    s6: "expectVariant nts i d key3 v3 e3 r5 = Inr r6" and
    s7: "expectVariant nts i d key4 v4 e4 r6 = Inr r'"
    unfolding validateImageVariants_def Let_def
    by (simp add: bindE_Inr_iff) blast
  have "adds r (labelledAll nts i d
                  (textIf (length (objectKeys variants) = 0)
                     ''imageVariants must contain at least one variant'') @ [] @
                labelledAll nts i d (concat (map (variantTexts variants) (objectKeys variants))) @
                [] @ [] @ [] @ []) r'"
    by (rule adds_trans [OF errorWhen_adds [OF s1]
          adds_trans [OF warningWhen_adds [OF s2]
          adds_trans [OF forEachVariantKey_adds [OF s3]
          adds_trans [OF expectVariant_adds [OF s4]
          adds_trans [OF expectVariant_adds [OF s5]
          adds_trans [OF expectVariant_adds [OF s6] expectVariant_adds [OF s7]]]]]]])
  with False v show ?thesis
    by (simp add: imageVariantsTexts_def labelledAll_append)
qed

lemma validateId_adds:
  assumes "validateId i d (r, seen) = (r', seen')" "isObjectValue d"
  shows "adds r (idErrors i d seen) r' \<and> seen' = seen \<union> newIds d"
proof (cases "notNonEmptyString (getProp d ''id'')")
  case True
  with assms show ?thesis
    by (auto simp add: validateId_def idErrors_def newIds_def acceptedId_def adds_pushError)
next
  case False
  then obtain s where s: "getProp d ''id'' = Some (JStr s)"
    by (cases "getProp d ''id''" rule: typeof.cases) (auto simp add: notNonEmptyString_def)
  have "adds r [duplicateIdMessage i s] (pushError (duplicateIdMessage i s) r)"
       "adds (pushError (duplicateIdMessage i s) r) [idFormatMessage i s]
          (pushError (idFormatMessage i s) (pushError (duplicateIdMessage i s) r))"
       "adds r [idFormatMessage i s] (pushError (idFormatMessage i s) r)"
    by (rule adds_pushError)+
  then have both: "adds r [duplicateIdMessage i s, idFormatMessage i s]
          (pushError (idFormatMessage i s) (pushError (duplicateIdMessage i s) r))"
    using adds_trans by fastforce
  note one = adds_pushError [of r "duplicateIdMessage i s"]
    adds_pushError [of r "idFormatMessage i s"]
  from assms False s both one show ?thesis
    by (auto simp add: validateId_def idErrors_def newIds_def acceptedId_def Let_def adds_refl
        split: if_splits)
qed

lemma validateDrink_adds:
  assumes "validateDrink nts i d (r, seen) = Inr (r', seen')"
  shows "adds r (drinkErrors nts i d seen) r' \<and> seen' = seen \<union> newIds d"
proof (cases "isObjectValue d")
  case False
  with assms show ?thesis
    by (auto simp add: validateDrink_def drinkErrors_def isObjectValue_def newIds_def
        acceptedId_def adds_pushError)
next
  case True
  obtain r1 seen1 where id: "validateId i d (r, seen) = (r1, seen1)"
    by (cases "validateId i d (r, seen)") auto
  from assms True id obtain r2 r3 r4 r5 r6 r7 where
    s2: "validateName nts i d r1 = Inr r2" and
    s3: "validateCategory nts i d r2 = Inr r3" and
    s4: "validatePopularity nts i d r3 = Inr r4" and
    s5: "validateAliases nts i d r4 = Inr r5" and
    s6: "validateImagePath nts i d r5 = Inr r6" and
    s7: "validateImageVariants nts i d r6 = Inr r7" and
    s8: "validateModifiersSupported nts i d r7 = Inr r'" and
    seen': "seen' = seen1"
    unfolding validateDrink_def isObjectValue_def Let_def
    by (simp add: bindE_Inr_iff) blast
  from validateId_adds [OF id True] have
    a1: "adds r (idErrors i d seen) r1" and seen1: "seen1 = seen \<union> newIds d"
    by simp_all
  have "adds r (idErrors i d seen @
          labelledAll nts i d
            (textIf (notNonEmptyString (getProp d ''name'')) ''name must be a non-empty string'') @
          labelledAll nts i d
            (textIf (\<not> truthy (getProp d ''category'') \<or> typeof (getProp d ''category'') \<noteq> TString)
               ''category must be a string'') @
          labelledAll nts i d
            (textIf (popularityOutOfRange (getProp d ''popularity'')) popularityText) @
          labelledAll nts i d
            (textIf (truthy (getProp d ''aliases'') \<and> \<not> isStringArray (getProp d ''aliases''))
               ''aliases must be an array of strings if provided'') @
          labelledAll nts i d (imagePathTexts d) @
          labelledAll nts i d (imageVariantsTexts d) @
          labelledAll nts i d
            (textIf (truthy (getProp d ''modifiersSupported'') \<and>
                     \<not> isStringArray (getProp d ''modifiersSupported'')) modifiersText)) r'"
    by (rule adds_trans [OF a1
          adds_trans [OF validateName_adds [OF s2]
          adds_trans [OF validateCategory_adds [OF s3]
          adds_trans [OF validatePopularity_adds [OF s4]
          adds_trans [OF validateAliases_adds [OF s5]
          adds_trans [OF validateImagePath_adds [OF s6]
          adds_trans [OF validateImageVariants_adds [OF s7]
            validateModifiersSupported_adds [OF s8]]]]]]]])
  with True seen' seen1 show ?thesis
    by (simp add: drinkErrors_def fieldTexts_def labelledAll_append)
qed

lemma idsOf_Cons: "idsOf (d # ds) = newIds d \<union> idsOf ds"
  by (simp add: idsOf_def)

lemma idsOf_Nil: "idsOf [] = {}"
  by (simp add: idsOf_def)

lemma forEachDrink_adds:
  "forEachDrink nts i ds (r, seen) = Inr (r', seen') \<Longrightarrow>
   adds r (catalogErrors nts i ds seen) r' \<and> seen' = seen \<union> idsOf ds"
proof (induction ds arbitrary: i r seen)
  case Nil
  then show ?case by (simp add: adds_refl idsOf_Nil)
next
  case (Cons d ds)
  then obtain r1 seen1 where
    d: "validateDrink nts i d (r, seen) = Inr (r1, seen1)" and
    rest: "forEachDrink nts (Suc i) ds (r1, seen1) = Inr (r', seen')"
    by (auto simp add: bindE_Inr_iff)
  from validateDrink_adds [OF d] Cons.IH [OF rest] show ?case
    by (auto simp add: idsOf_Cons intro: adds_trans)
qed

subsection \<open>The image check and the flags check only add messages of their own\<close>

lemma firstChar_Cons [simp]: "firstChar (c # t) = Some c"
  by (simp add: firstChar_def)

lemma firstChar_Nil [simp]: "firstChar [] = None"
  by (simp add: firstChar_def)

lemma startsWith_firstChar: "startsWith m (c # p) \<Longrightarrow> firstChar m = Some c"
  by (cases m) (auto simp add: startsWith_def)

lemma forIndex_firstChar: "forIndex j m \<Longrightarrow> firstChar m = Some CHR ''D''"
  by (auto simp add: forIndex_def drinkPrefix_def dest: startsWith_firstChar)

lemma fileNotFoundError_firstChar: "fileNotFoundError m \<Longrightarrow> firstChar m = Some CHR ''I''"
  by (auto simp add: fileNotFoundError_def dest: startsWith_firstChar)

lemma checkVariantFile_adds:
  assumes "checkVariantFile nts ex d entry r = Inr r'"
  shows "\<exists>es. adds r es r' \<and> list_all (\<lambda>m. firstChar m = Some CHR ''I'') es"
proof -
  obtain variant v where entry: "entry = (variant, v)" by (cases entry)
  with assms obtain p where p: "v = JStr p"
    by (cases v) (auto simp add: checkVariantFile_def)
  show ?thesis
  proof (cases "ex p")
    case True
    with assms entry p have "r' = r" by (simp add: checkVariantFile_def)
    then show ?thesis using adds_refl [of r] by auto
  next
    case False
    with assms entry p obtain m where "r' = pushError m r" "firstChar m = Some CHR ''I''"
      by (auto simp add: checkVariantFile_def bindE_Inr_iff)
    then show ?thesis using adds_pushError [of r m] by auto
  qed
qed

lemma forEachVariantFile_adds:
  "forEachVariantFile nts ex d entries r = Inr r' \<Longrightarrow>
   \<exists>es. adds r es r' \<and> list_all (\<lambda>m. firstChar m = Some CHR ''I'') es"
proof (induction entries arbitrary: r)
  case Nil
  then show ?case using adds_refl [of r] by auto
next
  case (Cons entry entries)
  then obtain r1 where
    s1: "checkVariantFile nts ex d entry r = Inr r1" and
    s2: "forEachVariantFile nts ex d entries r1 = Inr r'"
    by (auto simp add: bindE_Inr_iff)
  from checkVariantFile_adds [OF s1] Cons.IH [OF s2] obtain es fs where
    "adds r es r1" "adds r1 fs r'"
    "list_all (\<lambda>m. firstChar m = Some CHR ''I'') es"
    "list_all (\<lambda>m. firstChar m = Some CHR ''I'') fs"
    by blast
  then have "adds r (es @ fs) r' \<and> list_all (\<lambda>m. firstChar m = Some CHR ''I'') (es @ fs)"
    by (simp add: adds_trans)
  then show ?case by blast
qed

lemma checkImageFilesOf_adds:
  assumes "checkImageFilesOf nts ex d r = Inr r'"
  shows "\<exists>es. adds r es r' \<and> list_all (\<lambda>m. firstChar m = Some CHR ''I'') es"
proof (cases "\<not> truthy (getProp d ''id'') \<or> \<not> truthy (getProp d ''imagePath'')")
  case True
  with assms have "r' = r"
    by (simp add: checkImageFilesOf_def split: if_splits)
  then show ?thesis using adds_refl [of r] by auto
next
  case False
  with assms obtain p where p: "getProp d ''imagePath'' = Some (JStr p)"
    by (cases "getProp d ''imagePath''" rule: typeof.cases)
      (auto simp add: checkImageFilesOf_def split: if_splits)
  from assms False p obtain r1 where
    s1: "(if \<not> ex p
          then bindE (interpolate nts (getProp d ''id'')) (\<lambda>ids.
                 Inr (pushError (''Image file not found: '' @ p @ '' for drink '' @ quote @
                                 ids @ quote) r))
          else Inr r) = Inr r1" and
    s2: "(if truthy (getProp d ''imageVariants'')
          then (case getProp d ''imageVariants'' of
                  Some variants \<Rightarrow> forEachVariantFile nts ex d (ownEntries variants) r1
                | None \<Rightarrow> Inr r1)
          else Inr r1) = Inr r'"
    by (auto simp add: checkImageFilesOf_def bindE_Inr_iff split: if_splits)
  from s1 have "\<exists>es. adds r es r1 \<and> list_all (\<lambda>m. firstChar m = Some CHR ''I'') es"
  proof (cases "ex p")
    case True
    with s1 have "r1 = r" by simp
    then show ?thesis using adds_refl [of r] by auto
  next
    case False
    with s1 obtain m where "r1 = pushError m r" "firstChar m = Some CHR ''I''"
      by (auto simp add: bindE_Inr_iff)
    then show ?thesis using adds_pushError [of r m] by auto
  qed
  moreover from s2 have "\<exists>fs. adds r1 fs r' \<and> list_all (\<lambda>m. firstChar m = Some CHR ''I'') fs"
  proof (cases "truthy (getProp d ''imageVariants'')")
    case True
    then obtain variants where "getProp d ''imageVariants'' = Some variants"
      by (cases "getProp d ''imageVariants''") auto
    with s2 True show ?thesis
      by (simp add: forEachVariantFile_adds)
  next
    case False
    with s2 have "r' = r1" by simp
    then show ?thesis using adds_refl [of r1] by auto
  qed
  ultimately obtain es fs where
    "adds r es r1" "adds r1 fs r'"
    "list_all (\<lambda>m. firstChar m = Some CHR ''I'') es"
    "list_all (\<lambda>m. firstChar m = Some CHR ''I'') fs"
    by blast
  then have "adds r (es @ fs) r' \<and> list_all (\<lambda>m. firstChar m = Some CHR ''I'') (es @ fs)"
    by (simp add: adds_trans)
  then show ?thesis by blast
qed

lemma forEachImageCheck_adds:
  "forEachImageCheck nts ex ds r = Inr r' \<Longrightarrow>
   \<exists>es. adds r es r' \<and> list_all (\<lambda>m. firstChar m = Some CHR ''I'') es"
proof (induction ds arbitrary: r)
  case Nil
  then show ?case using adds_refl [of r] by auto
next
  case (Cons d ds)
  then obtain r1 where
    s1: "checkImageFilesOf nts ex d r = Inr r1" and
    s2: "forEachImageCheck nts ex ds r1 = Inr r'"
    by (auto simp add: bindE_Inr_iff)
  from checkImageFilesOf_adds [OF s1] Cons.IH [OF s2] obtain es fs where
    "adds r es r1" "adds r1 fs r'"
    "list_all (\<lambda>m. firstChar m = Some CHR ''I'') es"
    "list_all (\<lambda>m. firstChar m = Some CHR ''I'') fs"
    by blast
  then have "adds r (es @ fs) r' \<and> list_all (\<lambda>m. firstChar m = Some CHR ''I'') (es @ fs)"
    by (simp add: adds_trans)
  then show ?case by blast
qed

lemma validateFlags_adds: "adds r (flagsErrors flags) (validateFlags flags r)"
  by (cases flags)
    (auto simp add: flagsErrors_def validateFlags_def adds_def pushError_def initialResult_def
      Let_def)

lemma flagsErrors_firstChar:
  "list_all (\<lambda>m. firstChar m = Some CHR ''f'' \<or> firstChar m = Some CHR ''F'') (flagsErrors flags)"
  by (cases flags)
    (auto simp add: flagsErrors_def validateFlags_def pushError_def initialResult_def Let_def)

subsection \<open>The errors of a run, taken apart\<close>

lemma validateCatalog_adds:
  assumes "validateCatalog env = Inr r"
  shows "\<exists>es. adds initialResult es r"
proof (cases "\<exists>ds. drinksJson env = Parsed (JArr ds)")
  case False
  then have "\<exists>m. r = pushError m initialResult"
    using assms
    by (auto simp add: validateCatalog_def split: jsonFile.splits json.splits)
  then show ?thesis using adds_pushError by blast
next
  case True
  then obtain ds where ds: "drinksJson env = Parsed (JArr ds)" by blast
  with assms obtain st r2 where
    s1: "forEachDrink (numberToString env) 0 ds (initialResult, {}) = Inr st" and
    s2: "(if validateImageFiles env = Some ''true''
          then forEachImageCheck (numberToString env) (existsSync env) ds (fst st)
          else Inr (fst st)) = Inr r2" and
    s3: "r = validateFlags (flagsJson env) r2"
    by (auto simp add: validateCatalog_def bindE_Inr_iff)
  obtain r1 seen1 where st: "st = (r1, seen1)" by (cases st)
  from forEachDrink_adds [OF s1 [unfolded st]] have a1: "\<exists>es. adds initialResult es r1"
    by blast
  from s2 st have a2: "\<exists>es. adds r1 es r2"
    using forEachImageCheck_adds adds_refl by (fastforce split: if_splits)
  from s3 have a3: "\<exists>es. adds r2 es r"
    using validateFlags_adds by blast
  from a1 a2 a3 show ?thesis
    using adds_trans by blast
qed

lemma validateCatalog_errors:
  assumes "validateCatalog env = Inr r" "drinksJson env = Parsed (JArr ds)"
  shows "\<exists>imgs. errors r = catalogErrors (numberToString env) 0 ds {} @ imgs @
                            flagsErrors (flagsJson env) \<and>
                 list_all (\<lambda>m. firstChar m = Some CHR ''I'') imgs \<and>
                 (validateImageFiles env = Some ''true'' \<or> imgs = [])"
proof -
  from assms obtain st r2 where
    s1: "forEachDrink (numberToString env) 0 ds (initialResult, {}) = Inr st" and
    s2: "(if validateImageFiles env = Some ''true''
          then forEachImageCheck (numberToString env) (existsSync env) ds (fst st)
          else Inr (fst st)) = Inr r2" and
    s3: "r = validateFlags (flagsJson env) r2"
    by (auto simp add: validateCatalog_def bindE_Inr_iff)
  obtain r1 seen1 where st: "st = (r1, seen1)" by (cases st)
  from forEachDrink_adds [OF s1 [unfolded st]]
  have e1: "errors r1 = catalogErrors (numberToString env) 0 ds {}"
    by (simp add: adds_def initialResult_def)
  from s2 st obtain imgs where
    e2: "errors r2 = errors r1 @ imgs" and
    i1: "list_all (\<lambda>m. firstChar m = Some CHR ''I'') imgs" and
    i2: "validateImageFiles env = Some ''true'' \<or> imgs = []"
  proof (cases "validateImageFiles env = Some ''true''")
    case True
    with s2 st forEachImageCheck_adds [of "numberToString env" "existsSync env" ds r1 r2]
    obtain es where "adds r1 es r2" "list_all (\<lambda>m. firstChar m = Some CHR ''I'') es"
      by auto
    with True that show ?thesis by (simp add: adds_def)
  next
    case False
    with s2 st have "r2 = r1" by simp
    with False that [of "[]"] show ?thesis by simp
  qed
  from s3 validateFlags_adds [of r2 "flagsJson env"]
  have e3: "errors r = errors r2 @ flagsErrors (flagsJson env)"
    by (simp add: adds_def)
  from e1 e2 e3 i1 i2 show ?thesis by auto
qed

subsection \<open>The errors about one index\<close>

lemma forIndex_labelled [simp]: "forIndex j (labelled k l text) = (j = k)"
  by (simp add: labelled_def)

lemma forIndex_idMissingMessage [simp]: "forIndex j (idMissingMessage k) = (j = k)"
  by (simp add: idMissingMessage_def)

lemma forIndex_duplicateIdMessage [simp]: "forIndex j (duplicateIdMessage k s) = (j = k)"
  by (simp add: duplicateIdMessage_def)

lemma forIndex_idFormatMessage [simp]: "forIndex j (idFormatMessage k s) = (j = k)"
  by (simp add: idFormatMessage_def)

lemma forIndex_notAnObjectMessage [simp]: "forIndex j (notAnObjectMessage k) = (j = k)"
  by (simp add: notAnObjectMessage_def)

lemma labelledAll_forIndex:
  "m \<in> set (labelledAll nts k d texts) \<Longrightarrow> forIndex j m = (j = k)"
  by (auto simp add: labelledAll_def)

lemma idErrors_forIndex: "m \<in> set (idErrors k d seen) \<Longrightarrow> forIndex j m = (j = k)"
  by (auto simp add: idErrors_def split: option.splits json.splits if_splits)

lemma drinkErrors_forIndex:
  "m \<in> set (drinkErrors nts k d seen) \<Longrightarrow> forIndex j m = (j = k)"
  by (auto simp add: drinkErrors_def dest: idErrors_forIndex labelledAll_forIndex
      split: if_splits)

lemma filter_drinkErrors:
  "filter (forIndex j) (drinkErrors nts k d seen) = (if j = k then drinkErrors nts k d seen else [])"
  using drinkErrors_forIndex [of _ nts k d seen j]
  by (auto simp add: filter_empty_conv intro!: filter_True)

lemma filter_catalogErrors:
  "filter (forIndex j) (catalogErrors nts i ds seen) =
     (if i \<le> j \<and> j < i + length ds
      then drinkErrors nts j (ds ! (j - i)) (seen \<union> idsOf (take (j - i) ds))
      else [])"
proof (induction ds arbitrary: i seen)
  case Nil
  then show ?case by auto
next
  case (Cons d ds)
  have split: "filter (forIndex j) (catalogErrors nts i (d # ds) seen) =
      (if j = i then drinkErrors nts i d seen else []) @
      (if Suc i \<le> j \<and> j < Suc i + length ds
       then drinkErrors nts j (ds ! (j - Suc i))
              ((seen \<union> newIds d) \<union> idsOf (take (j - Suc i) ds))
       else [])"
    by (simp only: catalogErrors.simps filter_append filter_drinkErrors Cons.IH)
  consider (here) "j = i" | (later) "Suc i \<le> j" "j < Suc i + length ds"
    | (before) "j < i" | (after) "Suc i + length ds \<le> j"
    by arith
  then show ?case
  proof cases
    case here
    show ?thesis
      unfolding split using here by (simp add: idsOf_Nil)
  next
    case later
    then have "j - i = Suc (j - Suc i)" "j \<noteq> i" "i \<le> j" "j < i + length (d # ds)"
      by simp_all
    with later show ?thesis
      unfolding split by (simp add: idsOf_Cons Un_assoc)
  next
    case before
    then show ?thesis
      unfolding split by simp
  next
    case after
    then show ?thesis
      unfolding split by simp
  qed
qed

lemma filter_other_messages:
  "list_all (\<lambda>m. firstChar m = Some c) ms \<Longrightarrow> c \<noteq> CHR ''D'' \<Longrightarrow> filter (forIndex j) ms = []"
  by (auto simp add: filter_empty_conv list_all_iff dest: forIndex_firstChar)

lemma filter_flagsErrors: "filter (forIndex j) (flagsErrors flags) = []"
proof -
  have "\<not> forIndex j m" if "m \<in> set (flagsErrors flags)" for m
  proof -
    from that flagsErrors_firstChar [of flags]
    have "firstChar m = Some CHR ''f'' \<or> firstChar m = Some CHR ''F''"
      by (simp add: list_all_iff)
    then show ?thesis
      using forIndex_firstChar [of j m] by auto
  qed
  then show ?thesis
    by (simp add: filter_empty_conv)
qed

text \<open>
  The errors of a returned result that are about index \<open>j\<close> are the errors of the rules on
  entry \<open>j\<close>, run with the ids accepted from the entries before it.
\<close>

lemma errors_forIndex:
  assumes "validateCatalog env = Inr r" "drinksJson env = Parsed (JArr ds)" "j < length ds"
  shows "filter (forIndex j) (errors r) =
         drinkErrors (numberToString env) j (ds ! j) (idsOf (take j ds))"
proof -
  from validateCatalog_errors [OF assms(1,2)] obtain imgs where
    "errors r = catalogErrors (numberToString env) 0 ds {} @ imgs @ flagsErrors (flagsJson env)"
    "list_all (\<lambda>m. firstChar m = Some CHR ''I'') imgs"
    by blast
  with assms(3) show ?thesis
    by (simp add: filter_catalogErrors filter_flagsErrors filter_other_messages)
qed

lemma error_reported_iff:
  assumes "validateCatalog env = Inr r" "drinksJson env = Parsed (JArr ds)" "j < length ds"
    "forIndex j m"
  shows "(m \<in> set (errors r)) =
         (m \<in> set (drinkErrors (numberToString env) j (ds ! j) (idsOf (take j ds))))"
proof -
  have "(m \<in> set (errors r)) = (m \<in> set (filter (forIndex j) (errors r)))"
    using assms(4) by simp
  then show ?thesis
    by (simp only: errors_forIndex [OF assms(1,2,3)])
qed

lemma idsOf_take_iff:
  assumes "j \<le> length ds"
  shows "(s \<in> idsOf (take j ds)) = (\<exists>i<j. acceptedId (ds ! i) = Some s)"
proof -
  have "(s \<in> idsOf (take j ds)) = (\<exists>d \<in> set (take j ds). acceptedId d = Some s)"
    by (auto simp add: idsOf_def newIds_def split: option.splits)
  also have "set (take j ds) = nth ds ` {0..<j}"
    using assms by (simp add: nth_image)
  also have "(\<exists>d \<in> nth ds ` {0..<j}. acceptedId d = Some s) =
             (\<exists>i<j. acceptedId (ds ! i) = Some s)"
    by auto
  finally show ?thesis .
qed

subsection \<open>Telling the messages of one entry apart\<close>

lemma labelled_eq [simp]: "(labelled j l t = labelled j l t') = (t = t')"
  by (simp add: labelled_def)

lemma labelled_image_iff [simp]: "(labelled j l t \<in> labelled j l ` T) = (t \<in> T)"
  by auto

lemma labelled_not_id [simp]:
  "labelled j l t \<noteq> idMissingMessage j"
  "labelled j l t \<noteq> duplicateIdMessage j s"
  "labelled j l t \<noteq> idFormatMessage j s"
  "idMissingMessage j \<noteq> labelled j l t"
  "duplicateIdMessage j s \<noteq> labelled j l t"
  "idFormatMessage j s \<noteq> labelled j l t"
  by (simp_all add: labelled_def idMissingMessage_def duplicateIdMessage_def idFormatMessage_def)

lemma id_messages_differ [simp]:
  "duplicateIdMessage j s \<noteq> idFormatMessage j s'"
  "idFormatMessage j s' \<noteq> duplicateIdMessage j s"
  "duplicateIdMessage j s \<noteq> idMissingMessage j"
  "idMissingMessage j \<noteq> duplicateIdMessage j s"
  by (simp_all add: idMissingMessage_def duplicateIdMessage_def idFormatMessage_def)

lemma duplicateIdMessage_eq [simp]: "(duplicateIdMessage j s = duplicateIdMessage j s') = (s = s')"
  by (simp add: duplicateIdMessage_def)

lemma idFormatMessage_eq [simp]: "(idFormatMessage j s = idFormatMessage j s') = (s = s')"
  by (simp add: idFormatMessage_def)

lemma acceptedId_SomeD:
  assumes "acceptedId d = Some s"
  shows "isObjectValue d" "\<not> notNonEmptyString (getProp d ''id'')" "getProp d ''id'' = Some (JStr s)"
  using assms
  by (auto simp add: acceptedId_def split: if_splits option.splits json.splits)

lemma labelled_in_drinkErrors:
  "isObjectValue d \<Longrightarrow>
   (labelled j (labelOf nts d) t \<in> set (drinkErrors nts j d seen)) = (t \<in> set (fieldTexts d))"
  by (auto simp add: drinkErrors_def labelledAll_def idErrors_def
      split: option.splits json.splits)

lemma duplicate_in_drinkErrors:
  assumes "acceptedId d = Some s"
  shows "(duplicateIdMessage j s \<in> set (drinkErrors nts j d seen)) = (s \<in> seen)"
  using acceptedId_SomeD [OF assms]
  by (auto simp add: drinkErrors_def labelledAll_def idErrors_def)

lemma idFormat_in_drinkErrors:
  assumes "acceptedId d = Some s"
  shows "(idFormatMessage j s \<in> set (drinkErrors nts j d seen)) = (\<not> isSnakeCase s)"
  using acceptedId_SomeD [OF assms]
  by (auto simp add: drinkErrors_def labelledAll_def idErrors_def)


lemma imagePathTexts_start: "t \<in> set (imagePathTexts d) \<Longrightarrow> startsWith t ''image''"
  by (auto simp add: imagePathTexts_def textIf_def startsWith_def
      split: option.splits json.splits if_splits)

lemma variantTexts_start: "t \<in> set (variantTexts variants k) \<Longrightarrow> startsWith t ''image''"
  by (auto simp add: variantTexts_def textIf_def startsWith_def
      split: option.splits json.splits if_splits)

lemma imageVariantsTexts_start: "t \<in> set (imageVariantsTexts d) \<Longrightarrow> startsWith t ''image''"
  by (auto simp add: imageVariantsTexts_def textIf_def dest: variantTexts_start
      split: option.splits if_splits)
    (simp_all add: startsWith_def)


lemma modifiers_in_fieldTexts:
  "(modifiersText \<in> set (fieldTexts d)) =
   (truthy (getProp d ''modifiersSupported'') \<and> \<not> isStringArray (getProp d ''modifiersSupported''))"
proof -
  have "\<not> startsWith modifiersText ''image''"
    by (simp add: modifiersText_def startsWith_def)
  then have "modifiersText \<notin> set (imagePathTexts d)" "modifiersText \<notin> set (imageVariantsTexts d)"
    using imagePathTexts_start imageVariantsTexts_start by blast+
  moreover have "modifiersText \<noteq> popularityText"
    "modifiersText \<noteq> ''name must be a non-empty string''"
    "modifiersText \<noteq> ''category must be a string''"
    "modifiersText \<noteq> ''aliases must be an array of strings if provided''"
    by (simp_all add: popularityText_def modifiersText_def)
  ultimately show ?thesis
    by (simp add: fieldTexts_def textIf_def)
qed

lemma labelOf_eq: "idOrUnknown nts d = Inr l \<Longrightarrow> labelOf nts d = l"
  by (simp add: labelOf_def)

subsection \<open>Ids that pass the non-empty-string test\<close>



lemma acceptedId_iff:
  "(acceptedId d = Some s) =
   (isObjectValue d \<and> getProp d ''id'' = Some (JStr s) \<and> trim s \<noteq> [])"
proof (cases "getProp d ''id''" rule: typeof.cases)
  case (5 t)
  have "t = [] \<Longrightarrow> trim t = []" by (simp add: trim_def)
  with 5 show ?thesis
    by (auto simp add: acceptedId_def notNonEmptyString_def)
qed (auto simp add: acceptedId_def notNonEmptyString_def)

lemma bindE_assoc: "bindE (bindE m f) g = bindE m (\<lambda>x. bindE (f x) g)"
  by (cases m) simp_all

lemma forEachDrink_append:
  "forEachDrink nts i (xs @ ys) st =
   bindE (forEachDrink nts i xs st) (forEachDrink nts (i + length xs) ys)"
proof (induction xs arbitrary: i st)
  case Nil
  then show ?case by simp
next
  case (Cons x xs)
  have "forEachDrink nts (Suc i) (xs @ ys) =
        (\<lambda>st'. bindE (forEachDrink nts (Suc i) xs st')
                 (forEachDrink nts (i + length (x # xs)) ys))"
    by (rule ext) (simp add: Cons.IH)
  then show ?case
    by (simp add: bindE_assoc)
qed

lemma snake_chars_exclude:
  "isUpperCase c \<or> c = CHR '' '' \<or> c = CHR ''-'' \<Longrightarrow> \<not> snakeChar c"
  by (auto simp add: isUpperCase_def snakeChar_def)

lemma sample_facts:
  "drinksJson (plainRun ds) = Parsed (JArr ds)"
  "numberToString (plainRun ds) = (\<lambda>n. ''0'')"
  "isObjectValue (sampleDrink ident p v)"
  "getProp (sampleDrink ident p v) ''id'' = Some ident"
  "getProp (sampleDrink ident p v) ''popularity'' = Some p"
  "getProp (sampleDrink ident p v) ''imagePath'' = Some (JStr ''drinks/margarita.png'')"
  "getProp (sampleDrink ident p v) ''imageVariants'' = Some v"
  "getProp (sampleDrink ident p v) ''modifiersSupported'' = None"
  "idOrUnknown nts (sampleDrink (JStr (c # s)) p v) = Inr (c # s)"
  by (simp_all add: plainRun_def sampleDrink_def isObjectValue_def getProp_def idOrUnknown_def)

subsection \<open>The warnings of a run, taken apart\<close>

lemma warns_refl: "warns r [] r"
  by (simp add: warns_def)

lemma warns_trans: "warns r ws r1 \<Longrightarrow> warns r1 vs r2 \<Longrightarrow> warns r (ws @ vs) r2"
  by (simp add: warns_def)

lemma warns_pushError: "warns r [] (pushError m r)"
  by (simp add: warns_def pushError_def)

lemma warns_pushWarning: "warns r [w] (pushWarning w r)"
  by (simp add: warns_def pushWarning_def)

lemma errorFor_warns: "errorFor nts i d text r = Inr r' \<Longrightarrow> warns r [] r'"
  by (auto simp add: errorFor_def bindE_Inr_iff warns_pushError)

lemma warningFor_warns:
  "warningFor nts i d text r = Inr r' \<Longrightarrow> warns r (labelledAll nts i d [text]) r'"
  by (auto simp add: warningFor_def bindE_Inr_iff labelOf_def labelledAll_def warns_pushWarning)

lemma errorWhen_warns: "errorWhen c nts i d text r = Inr r' \<Longrightarrow> warns r [] r'"
  by (cases c) (auto simp add: errorWhen_def errorFor_warns warns_refl)

lemma warningWhen_warns:
  "warningWhen c nts i d text r = Inr r' \<Longrightarrow> warns r (labelledAll nts i d (textIf c text)) r'"
  by (cases c)
    (auto simp add: warningWhen_def textIf_def warningFor_warns labelledAll_Nil warns_refl)

lemma validateName_warns: "validateName nts i d r = Inr r' \<Longrightarrow> warns r [] r'"
  unfolding validateName_def by (rule errorWhen_warns)

lemma validateCategory_warns: "validateCategory nts i d r = Inr r' \<Longrightarrow> warns r [] r'"
  unfolding validateCategory_def by (rule errorWhen_warns)

lemma validatePopularity_warns: "validatePopularity nts i d r = Inr r' \<Longrightarrow> warns r [] r'"
  unfolding validatePopularity_def by (rule errorWhen_warns)

lemma validateAliases_warns: "validateAliases nts i d r = Inr r' \<Longrightarrow> warns r [] r'"
  by (cases "truthy (getProp d ''aliases'')")
    (auto simp add: validateAliases_def errorWhen_warns warns_refl)

lemma validateModifiersSupported_warns:
  "validateModifiersSupported nts i d r = Inr r' \<Longrightarrow> warns r [] r'"
  by (cases "truthy (getProp d ''modifiersSupported'')")
    (auto simp add: validateModifiersSupported_def errorWhen_warns warns_refl)

lemma validateImagePath_warns:
  assumes "validateImagePath nts i d r = Inr r'"
  shows "warns r (labelledAll nts i d (imagePathWarningTexts d)) r'"
proof (cases "\<not> truthy (getProp d ''imagePath'') \<or> typeof (getProp d ''imagePath'') \<noteq> TString")
  case True
  with assms have "errorFor nts i d ''imagePath must be a string'' r = Inr r'"
    by (simp add: validateImagePath_def)
  then have "warns r [] r'"
    by (rule errorFor_warns)
  with True show ?thesis
    by (simp add: imagePathWarningTexts_def labelledAll_Nil)
next
  case False
  then obtain p where p: "getProp d ''imagePath'' = Some (JStr p)"
    by (cases "getProp d ''imagePath''" rule: typeof.cases) auto
  from assms False p obtain r1 where
    r1: "errorWhen (\<not> startsWith p ''drinks/'') nts i d
           (''imagePath must start with '' @ quote @ ''drinks/'' @ quote) r = Inr r1" and
    r2: "warningWhen (\<not> endsWithPng p) nts i d
           ''imagePath should be a .png file for consistency'' r1 = Inr r'"
    by (auto simp add: validateImagePath_def bindE_Inr_iff)
  from warns_trans [OF errorWhen_warns [OF r1] warningWhen_warns [OF r2]] False p
  show ?thesis
    by (simp add: imagePathWarningTexts_def)
qed

lemma validateVariant_warns:
  "validateVariant nts i d variants k r = Inr r' \<Longrightarrow> warns r [] r'"
  by (auto simp add: validateVariant_def errorFor_warns errorWhen_warns
      split: option.splits json.splits if_splits)

lemma forEachVariantKey_warns:
  "forEachVariantKey nts i d variants ks r = Inr r' \<Longrightarrow> warns r [] r'"
proof (induction ks arbitrary: r)
  case Nil
  then show ?case by (simp add: warns_refl)
next
  case (Cons k ks)
  then obtain r1 where
    "validateVariant nts i d variants k r = Inr r1"
    "forEachVariantKey nts i d variants ks r1 = Inr r'"
    by (auto simp add: bindE_Inr_iff)
  then show ?case
    using warns_trans [OF validateVariant_warns Cons.IH] by simp
qed

lemma expectVariant_warns:
  "expectVariant nts i d key v expected r = Inr r' \<Longrightarrow>
   warns r (labelledAll nts i d
              (textIf (truthy v \<and> v \<noteq> Some (JStr expected)) (mismatchText key expected))) r'"
  unfolding expectVariant_def mismatchText_def by (rule warningWhen_warns)

lemma validateImageVariants_warns:
  assumes "validateImageVariants nts i d r = Inr r'"
  shows "warns r (labelledAll nts i d (imageVariantsWarningTexts d)) r'"
proof (cases "\<not> truthy (getProp d ''imageVariants'') \<or>
              typeof (getProp d ''imageVariants'') \<noteq> TObject")
  case True
  with assms have "errorFor nts i d ''imageVariants must be an object'' r = Inr r'"
    by (simp add: validateImageVariants_def)
  then have "warns r [] r'"
    by (rule errorFor_warns)
  with True show ?thesis
    by (simp add: imageVariantsWarningTexts_def labelledAll_Nil)
next
  case False
  then obtain variants where v: "getProp d ''imageVariants'' = Some variants"
    by (cases "getProp d ''imageVariants''") auto
  let ?keys = "objectKeys variants"
  from assms False v obtain r1 r2 r3 ext base where
    s1: "errorWhen (length ?keys = 0) nts i d
           ''imageVariants must contain at least one variant'' r = Inr r1" and
    s2: "warningWhen (\<not> (''sm'' \<in> set ?keys \<and> ''md'' \<in> set ?keys) \<and>
                      \<not> (''512'' \<in> set ?keys \<and> ''1024'' \<in> set ?keys)) nts i d
           ''imageVariants should include keys {sm, md} (or {512, 1024} for legacy)'' r1 = Inr r2" and
    s3: "forEachVariantKey nts i d variants ?keys r2 = Inr r3" and
    e1: "pathExtname (getProp d ''imagePath'') = Inr ext" and
    e2: "pathBasename (getProp d ''imagePath'') ext = Inr base" and
    rest: "bindE (expectVariant nts i d ''sm'' (getProp variants ''sm'')
                    (''drinks/_thumbs/'' @ base @ ''_512.png'') r3) (\<lambda>r4.
           bindE (expectVariant nts i d ''md'' (getProp variants ''md'')
                    (''drinks/_thumbs/'' @ base @ ''_1024.png'') r4) (\<lambda>r5.
           bindE (expectVariant nts i d ''512'' (getProp variants ''512'')
                    (''drinks/_thumbs/'' @ base @ ''_512.png'') r5) (\<lambda>r6.
           expectVariant nts i d ''1024'' (getProp variants ''1024'')
             (''drinks/_thumbs/'' @ base @ ''_1024.png'') r6))) = Inr r'"
    unfolding validateImageVariants_def Let_def
    by (simp add: bindE_Inr_iff) blast
  from rest obtain r4 r5 r6 where
    s4: "expectVariant nts i d ''sm'' (getProp variants ''sm'')
           (''drinks/_thumbs/'' @ base @ ''_512.png'') r3 = Inr r4" and
    s5: "expectVariant nts i d ''md'' (getProp variants ''md'')
           (''drinks/_thumbs/'' @ base @ ''_1024.png'') r4 = Inr r5" and
    s6: "expectVariant nts i d ''512'' (getProp variants ''512'')
           (''drinks/_thumbs/'' @ base @ ''_512.png'') r5 = Inr r6" and
    s7: "expectVariant nts i d ''1024'' (getProp variants ''1024'')
           (''drinks/_thumbs/'' @ base @ ''_1024.png'') r6 = Inr r'"
    by (auto simp add: bindE_Inr_iff)
  have base: "baseOf d = base"
    by (simp add: baseOf_def e1 e2)
  note chain = warns_trans [OF errorWhen_warns [OF s1]
          warns_trans [OF warningWhen_warns [OF s2]
          warns_trans [OF forEachVariantKey_warns [OF s3]
          warns_trans [OF expectVariant_warns [OF s4]
          warns_trans [OF expectVariant_warns [OF s5]
          warns_trans [OF expectVariant_warns [OF s6] expectVariant_warns [OF s7]]]]]]]
  from chain False v base show ?thesis
    by (simp add: imageVariantsWarningTexts_def labelledAll_append Let_def)
qed

lemma validateId_warns: "validateId i d (r, seen) = (r', seen') \<Longrightarrow> warns r [] r'"
  by (auto simp add: validateId_def warns_def pushError_def Let_def
      split: if_splits option.splits json.splits)

lemma validateDrink_warns:
  assumes "validateDrink nts i d (r, seen) = Inr (r', seen')"
  shows "warns r (drinkWarnings nts i d) r'"
proof (cases "isObjectValue d")
  case False
  with assms show ?thesis
    by (auto simp add: validateDrink_def drinkWarnings_def isObjectValue_def warns_pushError)
next
  case True
  obtain r1 seen1 where id: "validateId i d (r, seen) = (r1, seen1)"
    by (cases "validateId i d (r, seen)") auto
  from assms True id obtain r2 r3 r4 r5 r6 r7 where
    s2: "validateName nts i d r1 = Inr r2" and
    s3: "validateCategory nts i d r2 = Inr r3" and
    s4: "validatePopularity nts i d r3 = Inr r4" and
    s5: "validateAliases nts i d r4 = Inr r5" and
    s6: "validateImagePath nts i d r5 = Inr r6" and
    s7: "validateImageVariants nts i d r6 = Inr r7" and
    s8: "validateModifiersSupported nts i d r7 = Inr r'"
    unfolding validateDrink_def isObjectValue_def Let_def
    by (simp add: bindE_Inr_iff) blast
  note chain = warns_trans [OF validateId_warns [OF id]
          warns_trans [OF validateName_warns [OF s2]
          warns_trans [OF validateCategory_warns [OF s3]
          warns_trans [OF validatePopularity_warns [OF s4]
          warns_trans [OF validateAliases_warns [OF s5]
          warns_trans [OF validateImagePath_warns [OF s6]
          warns_trans [OF validateImageVariants_warns [OF s7]
            validateModifiersSupported_warns [OF s8]]]]]]]]
  from chain True show ?thesis
    by (simp add: drinkWarnings_def labelledAll_append)
qed

lemma forEachDrink_warns:
  "forEachDrink nts i ds (r, seen) = Inr (r', seen') \<Longrightarrow> warns r (catalogWarnings nts i ds) r'"
proof (induction ds arbitrary: i r seen)
  case Nil
  then show ?case by (simp add: warns_refl)
next
  case (Cons d ds)
  then obtain r1 seen1 where
    d: "validateDrink nts i d (r, seen) = Inr (r1, seen1)" and
    rest: "forEachDrink nts (Suc i) ds (r1, seen1) = Inr (r', seen')"
    by (auto simp add: bindE_Inr_iff)
  from warns_trans [OF validateDrink_warns [OF d] Cons.IH [OF rest]] show ?case
    by simp
qed

lemma checkVariantFile_warns: "checkVariantFile nts ex d entry r = Inr r' \<Longrightarrow> warns r [] r'"
  by (auto simp add: checkVariantFile_def bindE_Inr_iff warns_refl warns_pushError
      split: prod.splits json.splits if_splits)

lemma forEachVariantFile_warns:
  "forEachVariantFile nts ex d entries r = Inr r' \<Longrightarrow> warns r [] r'"
proof (induction entries arbitrary: r)
  case Nil
  then show ?case by (simp add: warns_refl)
next
  case (Cons entry entries)
  then obtain r1 where
    "checkVariantFile nts ex d entry r = Inr r1"
    "forEachVariantFile nts ex d entries r1 = Inr r'"
    by (auto simp add: bindE_Inr_iff)
  then show ?case
    using warns_trans [OF checkVariantFile_warns Cons.IH] by simp
qed

lemma checkImageFilesOf_warns: "checkImageFilesOf nts ex d r = Inr r' \<Longrightarrow> warns r [] r'"
proof -
  assume run: "checkImageFilesOf nts ex d r = Inr r'"
  show ?thesis
  proof (cases "\<not> truthy (getProp d ''id'') \<or> \<not> truthy (getProp d ''imagePath'')")
    case True
    with run have "r' = r"
      by (simp add: checkImageFilesOf_def split: if_splits)
    then show ?thesis by (simp add: warns_refl)
  next
    case False
    with run obtain p where p: "getProp d ''imagePath'' = Some (JStr p)"
      by (cases "getProp d ''imagePath''" rule: typeof.cases)
        (auto simp add: checkImageFilesOf_def split: if_splits)
    from run False p obtain r1 where
      s1: "(if \<not> ex p
            then bindE (interpolate nts (getProp d ''id'')) (\<lambda>ids.
                   Inr (pushError (''Image file not found: '' @ p @ '' for drink '' @ quote @
                                   ids @ quote) r))
            else Inr r) = Inr r1" and
      s2: "(if truthy (getProp d ''imageVariants'')
            then (case getProp d ''imageVariants'' of
                    Some variants \<Rightarrow> forEachVariantFile nts ex d (ownEntries variants) r1
                  | None \<Rightarrow> Inr r1)
            else Inr r1) = Inr r'"
      by (auto simp add: checkImageFilesOf_def bindE_Inr_iff split: if_splits)
    from s1 have w1: "warns r [] r1"
      by (auto simp add: bindE_Inr_iff warns_refl warns_pushError split: if_splits)
    from s2 have w2: "warns r1 [] r'"
      by (auto simp add: warns_refl forEachVariantFile_warns split: if_splits option.splits)
    from warns_trans [OF w1 w2] show ?thesis by simp
  qed
qed

lemma forEachImageCheck_warns: "forEachImageCheck nts ex ds r = Inr r' \<Longrightarrow> warns r [] r'"
proof (induction ds arbitrary: r)
  case Nil
  then show ?case by (simp add: warns_refl)
next
  case (Cons d ds)
  then obtain r1 where
    "checkImageFilesOf nts ex d r = Inr r1"
    "forEachImageCheck nts ex ds r1 = Inr r'"
    by (auto simp add: bindE_Inr_iff)
  then show ?case
    using warns_trans [OF checkImageFilesOf_warns Cons.IH] by simp
qed

lemma validateFlags_warns: "warns r [] (validateFlags flags r)"
  by (cases flags) (auto simp add: validateFlags_def warns_def pushError_def Let_def)

lemma validateCatalog_warnings:
  assumes "validateCatalog env = Inr r" "drinksJson env = Parsed (JArr ds)"
  shows "warnings r = catalogWarnings (numberToString env) 0 ds"
proof -
  from assms obtain st r2 where
    s1: "forEachDrink (numberToString env) 0 ds (initialResult, {}) = Inr st" and
    s2: "(if validateImageFiles env = Some ''true''
          then forEachImageCheck (numberToString env) (existsSync env) ds (fst st)
          else Inr (fst st)) = Inr r2" and
    s3: "r = validateFlags (flagsJson env) r2"
    by (auto simp add: validateCatalog_def bindE_Inr_iff)
  obtain r1 seen1 where st: "st = (r1, seen1)" by (cases st)
  from forEachDrink_warns [OF s1 [unfolded st]]
  have w1: "warnings r1 = catalogWarnings (numberToString env) 0 ds"
    by (simp add: warns_def initialResult_def)
  from s2 st have "warns r1 [] r2"
    by (auto simp add: warns_refl forEachImageCheck_warns split: if_splits)
  moreover from s3 have "warns r2 [] r"
    by (simp add: validateFlags_warns)
  ultimately show ?thesis
    using w1 by (simp add: warns_def)
qed

lemma drinkWarnings_forIndex:
  "w \<in> set (drinkWarnings nts k d) \<Longrightarrow> forIndex j w = (j = k)"
  by (auto simp add: drinkWarnings_def dest: labelledAll_forIndex split: if_splits)

lemma filter_drinkWarnings:
  "filter (forIndex j) (drinkWarnings nts k d) = (if j = k then drinkWarnings nts k d else [])"
  using drinkWarnings_forIndex [of _ nts k d j]
  by (auto simp add: filter_empty_conv intro!: filter_True)

lemma filter_catalogWarnings:
  "filter (forIndex j) (catalogWarnings nts i ds) =
     (if i \<le> j \<and> j < i + length ds then drinkWarnings nts j (ds ! (j - i)) else [])"
proof (induction ds arbitrary: i)
  case Nil
  then show ?case by auto
next
  case (Cons d ds)
  have split: "filter (forIndex j) (catalogWarnings nts i (d # ds)) =
      (if j = i then drinkWarnings nts i d else []) @
      (if Suc i \<le> j \<and> j < Suc i + length ds
       then drinkWarnings nts j (ds ! (j - Suc i)) else [])"
    by (simp only: catalogWarnings.simps filter_append filter_drinkWarnings Cons.IH)
  consider (here) "j = i" | (later) "Suc i \<le> j" "j < Suc i + length ds"
    | (before) "j < i" | (after) "Suc i + length ds \<le> j"
    by arith
  then show ?case
  proof cases
    case here
    show ?thesis
      unfolding split using here by simp
  next
    case later
    then have "j - i = Suc (j - Suc i)" "j \<noteq> i" "i \<le> j" "j < i + length (d # ds)"
      by simp_all
    with later show ?thesis
      unfolding split by simp
  next
    case before
    then show ?thesis
      unfolding split by simp
  next
    case after
    then show ?thesis
      unfolding split by simp
  qed
qed

text \<open>
  The warnings of a returned result that are about index \<open>j\<close> are the warnings of the rules
  on entry \<open>j\<close>.
\<close>

lemma warnings_forIndex:
  assumes "validateCatalog env = Inr r" "drinksJson env = Parsed (JArr ds)" "j < length ds"
  shows "filter (forIndex j) (warnings r) = drinkWarnings (numberToString env) j (ds ! j)"
  using assms(3)
  by (simp add: validateCatalog_warnings [OF assms(1,2)] filter_catalogWarnings)

section \<open>The claims\<close>

subsection \<open>C1: success and the error list\<close>

text \<open>
  C1. For every catalog file, flags file and toggle, a result that \<^verbatim>\<open>validateCatalog\<close>
  returns has \<^verbatim>\<open>success = true\<close> if and only if its error list is empty. The
  warning list does not enter: the flag is a function of the errors alone.
\<close>

theorem success_iff_no_errors:
  assumes "validateCatalog env = Inr r"
  shows "success r = (errors r = [])"
proof -
  from validateCatalog_adds [OF assms] obtain es where "adds initialResult es r" by blast
  then show ?thesis
    by (simp add: adds_def initialResult_def)
qed

text \<open>
  A run with a warning and no error: the second variant path of the README entry is
  misspelt. The flag stays set.
\<close>

theorem success_iff_no_errors_witness:
  "validateCatalog
     (plainRun [sampleDrink (JStr ''margarita'') (JNum (Finite 98))
                  (JObj [(''sm'', JStr ''drinks/_thumbs/margarita_512.png''),
                         (''md'', JStr ''drinks/_thumbs/marg_1024.png'')])]) =
   Inr \<lparr>success = True, errors = [],
        warnings = [''Drink at index 0 (margarita): md path should be drinks/_thumbs/margarita_1024.png'']\<rparr> \<and>
   success \<lparr>success = True, errors = [],
        warnings = [''Drink at index 0 (margarita): md path should be drinks/_thumbs/margarita_1024.png'']\<rparr> =
   (errors \<lparr>success = True, errors = [],
        warnings = [''Drink at index 0 (margarita): md path should be drinks/_thumbs/margarita_1024.png'']\<rparr> = [])"
proof -
  have run: "validateCatalog
     (plainRun [sampleDrink (JStr ''margarita'') (JNum (Finite 98))
                  (JObj [(''sm'', JStr ''drinks/_thumbs/margarita_512.png''),
                         (''md'', JStr ''drinks/_thumbs/marg_1024.png'')])]) =
   Inr \<lparr>success = True, errors = [],
        warnings = [''Drink at index 0 (margarita): md path should be drinks/_thumbs/margarita_1024.png'']\<rparr>"
    by code_simp
  from success_iff_no_errors [OF run] run show ?thesis by simp
qed

subsection \<open>C3: the run can be left by an exception\<close>

text \<open>
  C3 says that \<^verbatim>\<open>validateCatalog\<close> never raises. It does: an entry with no
  \<^verbatim>\<open>imagePath\<close> and well-formed \<^verbatim>\<open>imageVariants\<close> gets the error of line 122,
  and then line 168 passes \<^verbatim>\<open>undefined\<close> to \<^verbatim>\<open>path.extname\<close>, which throws a
  \<^verbatim>\<open>TypeError\<close> that nothing catches. Here the entry is the README's without its image
  path.
\<close>

theorem validateCatalog_throws_without_imagePath:
  "validateCatalog (plainRun [withoutProperty ''imagePath'' margarita]) = Inl TypeError"
  by code_simp

text \<open>With the toggle on, a \<^verbatim>\<open>null\<close> element is enough: line 203 reads \<^verbatim>\<open>drink.id\<close> of it.\<close>

lemma validateCatalog_throws_on_null_with_toggle:
  "validateCatalog ((plainRun [JNull])\<lparr>validateImageFiles := Some ''true''\<rparr>) = Inl TypeError"
  by code_simp

text \<open>
  What does hold: the run returns a result when the toggle is off and every entry that is
  an object has a string for its image path and an id that is not itself an array or an
  object (so that the label of its messages can be built).
\<close>

lemma bindE_returns:
  "\<exists>x. m = Inr x \<Longrightarrow> (\<And>x. \<exists>y. f x = Inr y) \<Longrightarrow> \<exists>y. bindE m f = Inr y"
  by auto

lemma idOrUnknown_returns:
  assumes "\<forall>xs. getProp d ''id'' \<noteq> Some (JArr xs)" "\<forall>kvs. getProp d ''id'' \<noteq> Some (JObj kvs)"
  shows "\<exists>l. idOrUnknown nts d = Inr l"
proof (cases "getProp d ''id''")
  case None
  then show ?thesis by (simp add: idOrUnknown_def)
next
  case (Some v)
  with assms show ?thesis
    by (cases v) (auto simp add: idOrUnknown_def)
qed

lemma errorWhen_returns:
  "idOrUnknown nts d = Inr l \<Longrightarrow> \<exists>r'. errorWhen c nts i d text r = Inr r'"
  by (simp add: errorWhen_def errorFor_def)

lemma warningWhen_returns:
  "idOrUnknown nts d = Inr l \<Longrightarrow> \<exists>r'. warningWhen c nts i d text r = Inr r'"
  by (simp add: warningWhen_def warningFor_def)

lemma validateVariant_returns:
  "idOrUnknown nts d = Inr l \<Longrightarrow> \<exists>r'. validateVariant nts i d variants k r = Inr r'"
  by (auto simp add: validateVariant_def errorFor_def errorWhen_def
      split: option.splits json.splits)

lemma forEachVariantKey_returns:
  "idOrUnknown nts d = Inr l \<Longrightarrow> \<exists>r'. forEachVariantKey nts i d variants ks r = Inr r'"
proof (induction ks arbitrary: r)
  case Nil
  then show ?case by simp
next
  case (Cons k ks)
  show ?case
    unfolding forEachVariantKey.simps
    by (rule bindE_returns) (use Cons validateVariant_returns in blast)+
qed

lemma validateImageVariants_returns:
  assumes "idOrUnknown nts d = Inr l" "typeof (getProp d ''imagePath'') = TString"
  shows "\<exists>r'. validateImageVariants nts i d r = Inr r'"
proof (cases "\<not> truthy (getProp d ''imageVariants'') \<or>
              typeof (getProp d ''imageVariants'') \<noteq> TObject")
  case True
  then show ?thesis
    by (simp add: validateImageVariants_def errorFor_def assms(1))
next
  case False
  then obtain variants where v: "getProp d ''imageVariants'' = Some variants"
    by (cases "getProp d ''imageVariants''") auto
  from assms(2) obtain p where p: "getProp d ''imagePath'' = Some (JStr p)"
    by (cases "getProp d ''imagePath''" rule: typeof.cases) auto
  have paths: "pathExtname (Some (JStr p)) = Inr (extname p)"
    "pathBasename (Some (JStr p)) (extname p) = Inr (basename p (extname p))"
    by (simp_all add: pathExtname_def pathBasename_def)
  have "\<exists>r'. bindE (errorWhen c1 nts i d t1 r) (\<lambda>r1.
          bindE (warningWhen c2 nts i d t2 r1) (\<lambda>r2.
          bindE (forEachVariantKey nts i d variants ks r2) (\<lambda>r3.
          bindE (expectVariant nts i d k4 v4 e4 r3) (\<lambda>r4.
          bindE (expectVariant nts i d k5 v5 e5 r4) (\<lambda>r5.
          bindE (expectVariant nts i d k6 v6 e6 r5) (\<lambda>r6.
          expectVariant nts i d k7 v7 e7 r6)))))) = Inr r'"
    for c1 t1 c2 t2 ks k4 v4 e4 k5 v5 e5 k6 v6 e6 k7 v7 e7
    unfolding expectVariant_def
    by (intro bindE_returns errorWhen_returns [OF assms(1)] warningWhen_returns [OF assms(1)]
        forEachVariantKey_returns [OF assms(1)])
  with False v p paths show ?thesis
    by (simp add: validateImageVariants_def Let_def)
qed

lemma validateDrink_returns:
  assumes "isObjectValue d \<Longrightarrow> idOrUnknown nts d = Inr l"
    "isObjectValue d \<Longrightarrow> typeof (getProp d ''imagePath'') = TString"
  shows "\<exists>st'. validateDrink nts i d st = Inr st'"
proof (cases "isObjectValue d")
  case False
  then show ?thesis
    by (auto simp add: validateDrink_def isObjectValue_def)
next
  case True
  note l = assms(1) [OF True]
  from assms(2) [OF True] obtain p where p: "getProp d ''imagePath'' = Some (JStr p)"
    by (cases "getProp d ''imagePath''" rule: typeof.cases) auto
  have path: "\<exists>r'. validateImagePath nts i d r = Inr r'" for r
  proof (cases "p = []")
    case True
    with p show ?thesis
      by (simp add: validateImagePath_def errorFor_def l)
  next
    case False
    have "\<exists>r'. bindE (errorWhen c1 nts i d t1 r) (\<lambda>r1. warningWhen c2 nts i d t2 r1) = Inr r'"
      for c1 t1 c2 t2
      by (intro bindE_returns errorWhen_returns [OF l] warningWhen_returns [OF l])
    with False p show ?thesis
      by (simp add: validateImagePath_def)
  qed
  have aliases: "\<exists>r'. validateAliases nts i d r = Inr r'" for r
    using errorWhen_returns [OF l] by (simp add: validateAliases_def)
  have modifiers: "\<exists>r'. validateModifiersSupported nts i d r = Inr r'" for r
    using errorWhen_returns [OF l] by (simp add: validateModifiersSupported_def)
  have "\<exists>r'. bindE (validateName nts i d r1) (\<lambda>r2.
         bindE (validateCategory nts i d r2) (\<lambda>r3.
         bindE (validatePopularity nts i d r3) (\<lambda>r4.
         bindE (validateAliases nts i d r4) (\<lambda>r5.
         bindE (validateImagePath nts i d r5) (\<lambda>r6.
         bindE (validateImageVariants nts i d r6) (\<lambda>r7.
         bindE (validateModifiersSupported nts i d r7) (\<lambda>r8.
         Inr (r8, seen)))))))) = Inr r'" for r1 seen
    unfolding validateName_def validateCategory_def validatePopularity_def
    by (intro bindE_returns errorWhen_returns [OF l] aliases path modifiers
        validateImageVariants_returns [OF l assms(2) [OF True]]) simp
  with True show ?thesis
    by (simp add: validateDrink_def isObjectValue_def Let_def)
qed

lemma forEachDrink_returns:
  assumes "\<forall>d \<in> set ds. isObjectValue d \<longrightarrow>
             typeof (getProp d ''imagePath'') = TString \<and>
             (\<forall>xs. getProp d ''id'' \<noteq> Some (JArr xs)) \<and>
             (\<forall>kvs. getProp d ''id'' \<noteq> Some (JObj kvs))"
  shows "\<exists>st'. forEachDrink nts i ds st = Inr st'"
  using assms
proof (induction ds arbitrary: i st)
  case Nil
  then show ?case by simp
next
  case (Cons d ds)
  have "\<exists>st'. validateDrink nts i d st = Inr st'"
  proof (cases "isObjectValue d")
    case True
    with Cons.prems idOrUnknown_returns [of d nts] obtain l where
      "idOrUnknown nts d = Inr l" "typeof (getProp d ''imagePath'') = TString"
      by auto
    then show ?thesis
      using validateDrink_returns [of d nts l i st] by blast
  next
    case False
    then show ?thesis
      by (auto simp add: validateDrink_def isObjectValue_def)
  qed
  moreover have "\<exists>st''. forEachDrink nts (Suc i) ds st' = Inr st''" for st'
    using Cons.IH Cons.prems by simp
  ultimately show ?case
    unfolding forEachDrink.simps by (rule bindE_returns)
qed

lemma validateCatalog_returns:
  assumes "validateImageFiles env \<noteq> Some ''true''"
    "\<forall>ds. drinksJson env = Parsed (JArr ds) \<longrightarrow>
       (\<forall>d \<in> set ds. isObjectValue d \<longrightarrow>
             typeof (getProp d ''imagePath'') = TString \<and>
             (\<forall>xs. getProp d ''id'' \<noteq> Some (JArr xs)) \<and>
             (\<forall>kvs. getProp d ''id'' \<noteq> Some (JObj kvs)))"
  shows "\<exists>r. validateCatalog env = Inr r"
proof (cases "\<exists>ds. drinksJson env = Parsed (JArr ds)")
  case False
  then show ?thesis
    by (auto simp add: validateCatalog_def split: jsonFile.splits json.splits)
next
  case True
  then obtain ds where ds: "drinksJson env = Parsed (JArr ds)" by blast
  with assms(2) forEachDrink_returns [of ds "numberToString env" 0 "(initialResult, {})"]
  obtain st where "forEachDrink (numberToString env) 0 ds (initialResult, {}) = Inr st"
    by blast
  with ds assms(1) show ?thesis
    by (simp add: validateCatalog_def)
qed

subsection \<open>C2: the supported modifiers\<close>

text \<open>
  C2 says that a boolean \<^verbatim>\<open>modifiersSupported\<close> is accepted. This revision of the
  script declares the field as \<^verbatim>\<open>string[]\<close> and tests it with
  \<^verbatim>\<open>if (drink.modifiersSupported)\<close>: the value \<^verbatim>\<open>true\<close> is reported.
  The README entry with \<^verbatim>\<open>"modifiersSupported": true\<close> added:
\<close>

theorem boolean_modifiers_rejected:
  "validateCatalog (plainRun [withProperty ''modifiersSupported'' (JBool True) margarita]) =
   Inr \<lparr>success = False,
        errors = [''Drink at index 0 (margarita): modifiersSupported must be an array of strings if provided''],
        warnings = []\<rparr>"
  by code_simp

text \<open>
  C2, amended. Take a run that returns a result, and an entry (an object) of the catalog at
  index \<open>j\<close> whose messages have the label \<open>l\<close>. The error
  \<^verbatim>\<open>Drink at index j (l): modifiersSupported must be an array of strings if provided\<close>
  is in the error list exactly when the value of the field is truthy and not an array of
  strings. So there is no error when the field is absent, \<^verbatim>\<open>false\<close> (or another
  falsy value) or an array of strings, and there is one when it is \<^verbatim>\<open>true\<close>.
\<close>

theorem modifiersSupported_error:
  assumes "validateCatalog env = Inr r" "drinksJson env = Parsed (JArr ds)" "j < length ds"
    "isObjectValue (ds ! j)" "idOrUnknown (numberToString env) (ds ! j) = Inr l"
  shows "((labelled j l modifiersText \<in> set (errors r)) =
          (truthy (getProp (ds ! j) ''modifiersSupported'') \<and>
           \<not> isStringArray (getProp (ds ! j) ''modifiersSupported''))) \<and>
         (getProp (ds ! j) ''modifiersSupported'' = None \<or>
          getProp (ds ! j) ''modifiersSupported'' = Some (JBool False) \<or>
          isStringArray (getProp (ds ! j) ''modifiersSupported'')
          \<longrightarrow> labelled j l modifiersText \<notin> set (errors r)) \<and>
         (getProp (ds ! j) ''modifiersSupported'' = Some (JBool True)
          \<longrightarrow> labelled j l modifiersText \<in> set (errors r))"
proof -
  have "(labelled j l modifiersText \<in> set (errors r)) =
        (labelled j l modifiersText \<in>
           set (drinkErrors (numberToString env) j (ds ! j) (idsOf (take j ds))))"
    by (rule error_reported_iff [OF assms(1,2,3)]) simp
  also have "\<dots> = (modifiersText \<in> set (fieldTexts (ds ! j)))"
    using labelled_in_drinkErrors [OF assms(4), of j "numberToString env" modifiersText]
    by (simp add: labelOf_eq [OF assms(5)])
  finally have iff: "(labelled j l modifiersText \<in> set (errors r)) =
      (truthy (getProp (ds ! j) ''modifiersSupported'') \<and>
       \<not> isStringArray (getProp (ds ! j) ''modifiersSupported''))"
    by (simp add: modifiers_in_fieldTexts)
  then show ?thesis
    by (auto simp add: isStringArray_def)
qed

text \<open>Three entries: an array of strings, \<^verbatim>\<open>false\<close> and \<^verbatim>\<open>true\<close>. Only the last is reported.\<close>

theorem modifiersSupported_error_witness:
  "validateCatalog
     (plainRun [withProperty ''modifiersSupported'' (JArr [JStr ''no_ice'', JStr ''double'']) margarita,
                withProperty ''modifiersSupported'' (JBool False)
                  (sampleDrink (JStr ''mojito'') (JNum (Finite 90)) goodVariants),
                withProperty ''modifiersSupported'' (JBool True)
                  (sampleDrink (JStr ''martini'') (JNum (Finite 95)) goodVariants)]) =
     Inr \<lparr>success = False, errors = [labelled 2 ''martini'' modifiersText], warnings = []\<rparr> \<and>
   labelled 0 ''margarita'' modifiersText \<notin> set [labelled 2 ''martini'' modifiersText] \<and>
   labelled 1 ''mojito'' modifiersText \<notin> set [labelled 2 ''martini'' modifiersText] \<and>
   labelled 2 ''martini'' modifiersText \<in> set [labelled 2 ''martini'' modifiersText]"
proof -
  let ?d0 = "withProperty ''modifiersSupported'' (JArr [JStr ''no_ice'', JStr ''double'']) margarita"
  let ?d1 = "withProperty ''modifiersSupported'' (JBool False)
               (sampleDrink (JStr ''mojito'') (JNum (Finite 90)) goodVariants)"
  let ?d2 = "withProperty ''modifiersSupported'' (JBool True)
               (sampleDrink (JStr ''martini'') (JNum (Finite 95)) goodVariants)"
  let ?r = "\<lparr>success = False, errors = [labelled 2 ''martini'' modifiersText], warnings = []\<rparr>"
  have run: "validateCatalog (plainRun [?d0, ?d1, ?d2]) = Inr ?r"
    by code_simp
  have facts:
    "isObjectValue ?d0" "isObjectValue ?d1" "isObjectValue ?d2"
    "idOrUnknown (\<lambda>n. ''0'') ?d0 = Inr ''margarita''"
    "idOrUnknown (\<lambda>n. ''0'') ?d1 = Inr ''mojito''"
    "idOrUnknown (\<lambda>n. ''0'') ?d2 = Inr ''martini''"
    "isStringArray (getProp ?d0 ''modifiersSupported'')"
    "getProp ?d1 ''modifiersSupported'' = Some (JBool False)"
    "getProp ?d2 ''modifiersSupported'' = Some (JBool True)"
    by (simp_all add: withProperty_def margarita_def sampleDrink_def isObjectValue_def
        idOrUnknown_def getProp_def isStringArray_def)
  have "labelled 0 ''margarita'' modifiersText \<notin> set (errors ?r)"
    using modifiersSupported_error [OF run, of "[?d0, ?d1, ?d2]" 0 "''margarita''"] facts
    by (simp add: sample_facts)
  moreover have "labelled 1 ''mojito'' modifiersText \<notin> set (errors ?r)"
    using modifiersSupported_error [OF run, of "[?d0, ?d1, ?d2]" 1 "''mojito''"] facts
    by (simp add: sample_facts)
  moreover have "labelled 2 ''martini'' modifiersText \<in> set (errors ?r)"
    using modifiersSupported_error [OF run, of "[?d0, ?d1, ?d2]" 2 "''martini''"] facts
    by (simp add: sample_facts)
  ultimately show ?thesis using run by simp
qed

subsection \<open>C4: elements that are not objects\<close>

text \<open>
  C4 counts a JSON array among the elements that are not objects. The test of line 68 is
  \<^verbatim>\<open>typeof drink !== 'object' || drink === null\<close>, which an array passes: it is
  then checked field by field, as an object with no fields. A catalog whose only element
  is the empty array:
\<close>

theorem array_entry_checked_as_object:
  "validateCatalog (plainRun [JArr []]) =
   Inr \<lparr>success = False,
        errors = [''Drink at index 0: id must be a non-empty string'',
                  ''Drink at index 0 (unknown id): name must be a non-empty string'',
                  ''Drink at index 0 (unknown id): category must be a string'',
                  ''Drink at index 0 (unknown id): popularity must be a number between 0 and 100'',
                  ''Drink at index 0 (unknown id): imagePath must be a string'',
                  ''Drink at index 0 (unknown id): imageVariants must be an object''],
        warnings = []\<rparr>"
  by code_simp

text \<open>
  C4, amended. Let \<open>d\<close> be \<^verbatim>\<open>null\<close>, a boolean, a number or a string. Wherever
  \<open>d\<close> stands in the array, the pass over the entries does what it does on the elements
  before it, then pushes the one error \<^verbatim>\<open>Drink at index k: must be an object\<close> for
  the index \<open>k\<close> of \<open>d\<close>, changing nothing else (no warning, the seen ids as they were),
  then goes on with the elements after it under their own indices. And in a result that
  the run returns, the errors about the index of \<open>d\<close> are that one error and no other,
  and no warning is about that index.
\<close>

theorem non_object_entry:
  assumes "d = JNull \<or> (\<exists>b. d = JBool b) \<or> (\<exists>n. d = JNum n) \<or> (\<exists>s. d = JStr s)"
  shows "forEachDrink nts i (xs @ d # ys) st =
           bindE (forEachDrink nts i xs st) (\<lambda>st1.
             forEachDrink nts (Suc (i + length xs)) ys
               (pushError (notAnObjectMessage (i + length xs)) (fst st1), snd st1)) \<and>
         (validateCatalog env = Inr r \<and> drinksJson env = Parsed (JArr ds) \<and> j < length ds \<and>
          ds ! j = d
          \<longrightarrow> filter (forIndex j) (errors r) = [notAnObjectMessage j] \<and>
              filter (forIndex j) (warnings r) = [])"
proof
  have no: "\<not> isObjectValue d"
    using assms by (auto simp add: isObjectValue_def)
  then have "validateDrink nts k d st1 = Inr (pushError (notAnObjectMessage k) (fst st1), snd st1)"
    for k st1
    by (auto simp add: validateDrink_def isObjectValue_def)
  then have "forEachDrink nts k (d # ys) =
             (\<lambda>st1. forEachDrink nts (Suc k) ys
                      (pushError (notAnObjectMessage k) (fst st1), snd st1))" for k
    by (intro ext) simp
  then show "forEachDrink nts i (xs @ d # ys) st =
           bindE (forEachDrink nts i xs st) (\<lambda>st1.
             forEachDrink nts (Suc (i + length xs)) ys
               (pushError (notAnObjectMessage (i + length xs)) (fst st1), snd st1))"
    by (simp add: forEachDrink_append)
  show "validateCatalog env = Inr r \<and> drinksJson env = Parsed (JArr ds) \<and> j < length ds \<and>
          ds ! j = d
          \<longrightarrow> filter (forIndex j) (errors r) = [notAnObjectMessage j] \<and>
              filter (forIndex j) (warnings r) = []"
    using no
    by (auto simp add: errors_forIndex warnings_forIndex drinkErrors_def drinkWarnings_def)
qed

text \<open>A string, the README entry and \<^verbatim>\<open>null\<close>: one error each for indices 0 and 2.\<close>

theorem non_object_entry_witness:
  "validateCatalog (plainRun [JStr ''x'', margarita, JNull]) =
     Inr \<lparr>success = False, errors = [notAnObjectMessage 0, notAnObjectMessage 2],
          warnings = []\<rparr> \<and>
   filter (forIndex 2) [notAnObjectMessage 0, notAnObjectMessage 2] = [notAnObjectMessage 2] \<and>
   forEachDrink (\<lambda>n. ''0'') 0 ([JStr ''x'', margarita] @ JNull # []) (initialResult, {}) =
     bindE (forEachDrink (\<lambda>n. ''0'') 0 [JStr ''x'', margarita] (initialResult, {})) (\<lambda>st1.
       forEachDrink (\<lambda>n. ''0'') (Suc (0 + length [JStr ''x'', margarita])) []
         (pushError (notAnObjectMessage (0 + length [JStr ''x'', margarita])) (fst st1), snd st1))"
proof -
  let ?ds = "[JStr ''x'', margarita, JNull]"
  let ?r = "\<lparr>success = False, errors = [notAnObjectMessage 0, notAnObjectMessage 2],
             warnings = []\<rparr>"
  have run: "validateCatalog (plainRun ?ds) = Inr ?r"
    by code_simp
  have null: "JNull = JNull \<or> (\<exists>b. JNull = JBool b) \<or> (\<exists>n. JNull = JNum n) \<or> (\<exists>s. JNull = JStr s)"
    by simp
  note inst = non_object_entry [OF null, of "\<lambda>n. ''0''" 0 "[JStr ''x'', margarita]" "[]"
      "(initialResult, {})" "plainRun ?ds" ?r ?ds 2]
  from inst have "filter (forIndex 2) (errors ?r) = [notAnObjectMessage 2]"
    using run by (simp add: sample_facts)
  with inst run show ?thesis by simp
qed

subsection \<open>C5: duplicate ids\<close>

text \<open>
  C5 speaks of every id string that is reused. An id that is empty or only white space is
  not compared at all: line 75 reports it as missing and the branch that looks for
  duplicates is not taken. Two entries with the id \<^verbatim>\<open>" "\<close>:
\<close>

theorem blank_ids_not_duplicates:
  "validateCatalog (plainRun [sampleDrink (JStr '' '') (JNum (Finite 98)) goodVariants,
                              sampleDrink (JStr '' '') (JNum (Finite 98)) goodVariants]) =
   Inr \<lparr>success = False,
        errors = [''Drink at index 0: id must be a non-empty string'',
                  ''Drink at index 1: id must be a non-empty string''],
        warnings = []\<rparr>"
  by code_simp

text \<open>
  C5, amended. Take a run that returns a result, and an entry (an object) of the catalog at
  index \<open>j\<close> whose id is a string \<open>s\<close> that is not empty after trimming. The error
  \<^verbatim>\<open>Drink at index j: duplicate id "s"\<close> is in the error list exactly when an entry
  (an object) before \<open>j\<close> has the same id. So every later occurrence is reported and the
  first one never is.
\<close>

theorem duplicate_id_error:
  assumes "validateCatalog env = Inr r" "drinksJson env = Parsed (JArr ds)" "j < length ds"
    "isObjectValue (ds ! j)" "getProp (ds ! j) ''id'' = Some (JStr s)" "trim s \<noteq> []"
  shows "(duplicateIdMessage j s \<in> set (errors r)) =
         (\<exists>i<j. isObjectValue (ds ! i) \<and> getProp (ds ! i) ''id'' = Some (JStr s))"
proof -
  have acc: "acceptedId (ds ! j) = Some s"
    using assms(4,5,6) by (simp add: acceptedId_iff)
  have "(duplicateIdMessage j s \<in> set (errors r)) =
        (duplicateIdMessage j s \<in>
           set (drinkErrors (numberToString env) j (ds ! j) (idsOf (take j ds))))"
    by (rule error_reported_iff [OF assms(1,2,3)]) simp
  also have "\<dots> = (s \<in> idsOf (take j ds))"
    by (rule duplicate_in_drinkErrors [OF acc])
  also have "\<dots> = (\<exists>i<j. acceptedId (ds ! i) = Some s)"
    using assms(3) by (simp add: idsOf_take_iff)
  also have "\<dots> = (\<exists>i<j. isObjectValue (ds ! i) \<and> getProp (ds ! i) ''id'' = Some (JStr s))"
    using assms(6) by (simp add: acceptedId_iff)
  finally show ?thesis .
qed

text \<open>The ids a, b, a: the third entry is reported, the first is not.\<close>

theorem duplicate_id_error_witness:
  "validateCatalog (plainRun [sampleDrink (JStr ''a'') (JNum (Finite 1)) goodVariants,
                              sampleDrink (JStr ''b'') (JNum (Finite 100)) goodVariants,
                              sampleDrink (JStr ''a'') (JNum (Finite 1)) goodVariants]) =
     Inr \<lparr>success = False, errors = [duplicateIdMessage 2 ''a''], warnings = []\<rparr> \<and>
   duplicateIdMessage 2 ''a'' \<in> set [duplicateIdMessage 2 ''a''] \<and>
   duplicateIdMessage 0 ''a'' \<notin> set [duplicateIdMessage 2 ''a'']"
proof -
  let ?ds = "[sampleDrink (JStr ''a'') (JNum (Finite 1)) goodVariants,
              sampleDrink (JStr ''b'') (JNum (Finite 100)) goodVariants,
              sampleDrink (JStr ''a'') (JNum (Finite 1)) goodVariants]"
  let ?r = "\<lparr>success = False, errors = [duplicateIdMessage 2 ''a''], warnings = []\<rparr>"
  have run: "validateCatalog (plainRun ?ds) = Inr ?r"
    by code_simp
  have t: "trim ''a'' \<noteq> []"
    by code_simp
  have "duplicateIdMessage 0 ''a'' \<notin> set (errors ?r)"
    using duplicate_id_error [OF run, of ?ds 0 "''a''"] t
    by (simp add: sample_facts)
  moreover have "\<exists>i<2. isObjectValue (?ds ! i) \<and> getProp (?ds ! i) ''id'' = Some (JStr ''a'')"
    by (rule exI [of _ 0]) (simp add: sample_facts)
  then have "duplicateIdMessage 2 ''a'' \<in> set (errors ?r)"
    using duplicate_id_error [OF run, of ?ds 2 "''a''"] t
    by (simp add: sample_facts)
  ultimately show ?thesis using run by simp
qed

subsection \<open>C6: the toggle\<close>

lemma catalogErrors_firstChar:
  "m \<in> set (catalogErrors nts i ds seen) \<Longrightarrow> firstChar m = Some CHR ''D''"
proof (induction ds arbitrary: i seen)
  case Nil
  then show ?case by simp
next
  case (Cons d ds)
  then show ?case
    using drinkErrors_forIndex [of m nts i d seen i] forIndex_firstChar [of i m] by auto
qed

text \<open>
  C6. When \<^verbatim>\<open>VALIDATE_IMAGE_FILES\<close> is unset or is any string other than
  \<^verbatim>\<open>true\<close>, the outcome of \<^verbatim>\<open>validateCatalog\<close> (the result with its
  errors, warnings and flag, or the exception) is the same for any two states of the image
  files, the catalog and the flags file being the same; and a result that is returned
  holds no \<^verbatim>\<open>Image file not found\<close> or \<^verbatim>\<open>Image variant file not found\<close>
  error.
\<close>

theorem toggle_off_ignores_files:
  assumes "validateImageFiles env \<noteq> Some ''true''"
  shows "validateCatalog (env\<lparr>existsSync := files1\<rparr>) = validateCatalog (env\<lparr>existsSync := files2\<rparr>) \<and>
         (\<forall>r. validateCatalog env = Inr r \<longrightarrow> list_all (\<lambda>m. \<not> fileNotFoundError m) (errors r))"
proof
  show "validateCatalog (env\<lparr>existsSync := files1\<rparr>) = validateCatalog (env\<lparr>existsSync := files2\<rparr>)"
    using assms by (simp add: validateCatalog_def split: jsonFile.split json.split)
next
  have "\<not> fileNotFoundError m" if run: "validateCatalog env = Inr r" and m: "m \<in> set (errors r)"
    for r m
  proof (cases "\<exists>ds. drinksJson env = Parsed (JArr ds)")
    case True
    then obtain ds where ds: "drinksJson env = Parsed (JArr ds)" by blast
    from validateCatalog_errors [OF run ds] assms
    have "errors r = catalogErrors (numberToString env) 0 ds {} @ flagsErrors (flagsJson env)"
      by auto
    with m flagsErrors_firstChar [of "flagsJson env"]
    have "firstChar m = Some CHR ''D'' \<or> firstChar m = Some CHR ''f'' \<or> firstChar m = Some CHR ''F''"
      by (auto simp add: list_all_iff dest: catalogErrors_firstChar)
    then show ?thesis
      using fileNotFoundError_firstChar [of m] by auto
  next
    case False
    with run have "errors r = [''drinks.json file not found''] \<or>
                   (\<exists>msg. errors r = [''Failed to parse drinks.json: '' @ msg]) \<or>
                   errors r = [''drinks.json must contain an array of drink entries'']"
      by (auto simp add: validateCatalog_def pushError_def initialResult_def
          split: jsonFile.splits json.splits)
    with m have "firstChar m = Some CHR ''d'' \<or> firstChar m = Some CHR ''F''"
      by auto
    then show ?thesis
      using fileNotFoundError_firstChar [of m] by auto
  qed
  then show "\<forall>r. validateCatalog env = Inr r \<longrightarrow> list_all (\<lambda>m. \<not> fileNotFoundError m) (errors r)"
    by (simp add: list_all_iff)
qed

text \<open>
  The README entry with the toggle set to \<^verbatim>\<open>false\<close>: the run passes whether no image
  file exists or all do.
\<close>

theorem toggle_off_ignores_files_witness:
  "validateImageFiles ((plainRun [margarita])\<lparr>validateImageFiles := Some ''false''\<rparr>) \<noteq> Some ''true'' \<and>
   validateCatalog ((plainRun [margarita])\<lparr>validateImageFiles := Some ''false'',
                                           existsSync := (\<lambda>p. False)\<rparr>) = Inr initialResult \<and>
   validateCatalog ((plainRun [margarita])\<lparr>validateImageFiles := Some ''false'',
                                           existsSync := (\<lambda>p. True)\<rparr>) = Inr initialResult"
proof -
  let ?env = "(plainRun [margarita])\<lparr>validateImageFiles := Some ''false''\<rparr>"
  have off: "validateImageFiles ?env \<noteq> Some ''true''"
    by simp
  have run: "validateCatalog (?env\<lparr>existsSync := (\<lambda>p. False)\<rparr>) = Inr initialResult"
    by code_simp
  from toggle_off_ignores_files [OF off, of "\<lambda>p. False" "\<lambda>p. True"] run off
  show ?thesis by simp
qed

subsection \<open>C7: the format of the id\<close>

text \<open>
  C7 speaks of every non-empty string id that contains an upper-case letter, a space or a
  hyphen. The id \<^verbatim>\<open>" "\<close> is a non-empty string and contains a space, but it is
  empty after trimming: line 75 reports it as missing and the format test of line 88, in
  the other branch, is not made.
\<close>

theorem blank_id_no_format_error:
  "validateCatalog (plainRun [sampleDrink (JStr '' '') (JNum (Finite 98)) goodVariants]) =
   Inr \<lparr>success = False, errors = [''Drink at index 0: id must be a non-empty string''],
        warnings = []\<rparr>"
  by code_simp

text \<open>
  C7, amended. Take a run that returns a result, and an entry (an object) of the catalog at
  index \<open>j\<close> whose id is a string \<open>s\<close> that is not empty after trimming. The format error
  of the entry is in the error list exactly when \<open>s\<close> does not match
  \<^verbatim>\<open>/^[a-z0-9_]+$/\<close>; it is there when \<open>s\<close> contains an upper-case letter, a space
  or a hyphen, it is there for \<^verbatim>\<open>My-Drink\<close> and it is not there for
  \<^verbatim>\<open>my_drink_1\<close>.
\<close>

theorem id_format_error:
  assumes "validateCatalog env = Inr r" "drinksJson env = Parsed (JArr ds)" "j < length ds"
    "isObjectValue (ds ! j)" "getProp (ds ! j) ''id'' = Some (JStr s)" "trim s \<noteq> []"
  shows "((idFormatMessage j s \<in> set (errors r)) = (\<not> isSnakeCase s)) \<and>
         ((\<exists>c \<in> set s. isUpperCase c \<or> c = CHR '' '' \<or> c = CHR ''-'')
          \<longrightarrow> idFormatMessage j s \<in> set (errors r)) \<and>
         (s = ''My-Drink'' \<longrightarrow> idFormatMessage j s \<in> set (errors r)) \<and>
         (s = ''my_drink_1'' \<longrightarrow> idFormatMessage j s \<notin> set (errors r))"
proof -
  have acc: "acceptedId (ds ! j) = Some s"
    using assms(4,5,6) by (simp add: acceptedId_iff)
  have "(idFormatMessage j s \<in> set (errors r)) =
        (idFormatMessage j s \<in>
           set (drinkErrors (numberToString env) j (ds ! j) (idsOf (take j ds))))"
    by (rule error_reported_iff [OF assms(1,2,3)]) simp
  also have "\<dots> = (\<not> isSnakeCase s)"
    by (rule idFormat_in_drinkErrors [OF acc])
  finally have iff: "(idFormatMessage j s \<in> set (errors r)) = (\<not> isSnakeCase s)" .
  have "\<not> isSnakeCase s" if "\<exists>c \<in> set s. isUpperCase c \<or> c = CHR '' '' \<or> c = CHR ''-''"
    using that snake_chars_exclude by (auto simp add: isSnakeCase_def list_all_iff)
  moreover have "\<not> isSnakeCase ''My-Drink''" "isSnakeCase ''my_drink_1''"
    by (simp_all add: isSnakeCase_def snakeChar_def)
  ultimately show ?thesis
    using iff by blast
qed

text \<open>The two ids of the claim, in one catalog.\<close>

theorem id_format_error_witness:
  "validateCatalog (plainRun [sampleDrink (JStr ''My-Drink'') (JNum (Finite 1)) goodVariants,
                              sampleDrink (JStr ''my_drink_1'') (JNum (Finite 100)) goodVariants]) =
     Inr \<lparr>success = False, errors = [idFormatMessage 0 ''My-Drink''], warnings = []\<rparr> \<and>
   idFormatMessage 0 ''My-Drink'' \<in> set [idFormatMessage 0 ''My-Drink''] \<and>
   idFormatMessage 1 ''my_drink_1'' \<notin> set [idFormatMessage 0 ''My-Drink'']"
proof -
  let ?ds = "[sampleDrink (JStr ''My-Drink'') (JNum (Finite 1)) goodVariants,
              sampleDrink (JStr ''my_drink_1'') (JNum (Finite 100)) goodVariants]"
  let ?r = "\<lparr>success = False, errors = [idFormatMessage 0 ''My-Drink''], warnings = []\<rparr>"
  have run: "validateCatalog (plainRun ?ds) = Inr ?r"
    by code_simp
  have t: "trim ''My-Drink'' \<noteq> []" "trim ''my_drink_1'' \<noteq> []"
    by code_simp+
  have "idFormatMessage 0 ''My-Drink'' \<in> set (errors ?r)"
    using id_format_error [OF run, of ?ds 0 "''My-Drink''"] t
    by (simp add: sample_facts isSnakeCase_def snakeChar_def)
  moreover have "idFormatMessage 1 ''my_drink_1'' \<notin> set (errors ?r)"
    using id_format_error [OF run, of ?ds 1 "''my_drink_1''"] t
    by (simp add: sample_facts isSnakeCase_def snakeChar_def)
  ultimately show ?thesis using run by simp
qed

subsection \<open>C8: the range of the popularity\<close>



subsection \<open>C9: variant paths that do not match the image path\<close>

lemma margarita_paths:
  "pathExtname (Some (JStr ''drinks/margarita.png'')) = Inr ''.png''"
  "pathBasename (Some (JStr ''drinks/margarita.png'')) ''.png'' = Inr ''margarita''"
  "trim ''drinks/_thumbs/margarita_512.png'' \<noteq> []"
  "trim ''drinks/_thumbs/margarita_1024.png'' \<noteq> []"
  "trim ''drinks/_thumbs/marg_512.png'' \<noteq> []"
  "startsWith ''drinks/_thumbs/margarita_512.png'' ''drinks/_thumbs/''"
  "startsWith ''drinks/_thumbs/margarita_1024.png'' ''drinks/_thumbs/''"
  "startsWith ''drinks/_thumbs/marg_512.png'' ''drinks/_thumbs/''"
  by code_simp+

lemma margarita_reads:
  "endsWithPng ''drinks/margarita.png''"
  "startsWith ''drinks/margarita.png'' ''drinks/''"
  "objectKeys (JObj [(''sm'', JStr a), (''md'', JStr b)]) = [''sm'', ''md'']"
  "getProp (JObj [(''sm'', JStr a), (''md'', JStr b)]) ''sm'' = Some (JStr a)"
  "getProp (JObj [(''sm'', JStr a), (''md'', JStr b)]) ''md'' = Some (JStr b)"
  "getProp (JObj [(''sm'', JStr a), (''md'', JStr b)]) ''512'' = None"
  "getProp (JObj [(''sm'', JStr a), (''md'', JStr b)]) ''1024'' = None"
  by (simp_all add: endsWithPng_def startsWith_def objectKeys_def getProp_def)

text \<open>
  The rule of lines 134 to 187 on an entry with the image path of the README entry, at
  every index and for every result so far: with the right variant paths it returns the
  result as it was given, with a misspelt \<^verbatim>\<open>sm\<close> path it pushes one warning.
\<close>

lemma validateImageVariants_margarita:
  assumes "getProp drink ''imagePath'' = Some (JStr ''drinks/margarita.png'')"
  shows "getProp drink ''imageVariants'' =
            Some (JObj [(''sm'', JStr ''drinks/_thumbs/margarita_512.png''),
                        (''md'', JStr ''drinks/_thumbs/margarita_1024.png'')])
          \<Longrightarrow> validateImageVariants nts index drink result = Inr result"
    and "getProp drink ''imageVariants'' =
            Some (JObj [(''sm'', JStr ''drinks/_thumbs/marg_512.png''),
                        (''md'', JStr ''drinks/_thumbs/margarita_1024.png'')]) \<Longrightarrow>
          idOrUnknown nts drink = Inr l
          \<Longrightarrow> validateImageVariants nts index drink result =
                Inr (pushWarning
                       (labelled index l ''sm path should be drinks/_thumbs/margarita_512.png'')
                       result)"
  by (simp_all add: validateImageVariants_def assms margarita_reads margarita_paths
      validateVariant_def expectVariant_def errorWhen_def warningWhen_def warningFor_def)




subsection \<open>C10: ids that fail the non-empty-string test\<close>



end
